theory Spec2Isabelle
  imports Main "HOL-Library.Word"
begin

section \<open>Handlers, responses and the events of a request\<close>

text \<open>
  The source is \<^verbatim>\<open>bolt.go\<close>: the \<^verbatim>\<open>Bolt\<close> value, its options, the registration calls
  (\<^verbatim>\<open>Use\<close>, \<^verbatim>\<open>Handle\<close> and the method helpers) and the dispatcher \<^verbatim>\<open>ServeHTTP\<close>.
  The router, the \<^verbatim>\<open>Context\<close> methods and the response wrapper live in files of the
  repository that are not at hand; they are modelled from the specification and marked
  as such. \<^verbatim>\<open>Static\<close>, \<^verbatim>\<open>ServeFile\<close>, \<^verbatim>\<open>Index\<close>, \<^verbatim>\<open>Run\<close> and \<^verbatim>\<open>Stop\<close> (lines 175--193 and
  211--217) are thin calls into the HTTP library and are left out.

  A \<^verbatim>\<open>HandlerFunc\<close> is \<^verbatim>\<open>func(*Context)\<close>. What a handler can do to the dispatch core goes
  through the public surface of the context: continue the chain, halt it, store a value,
  write through the response handle, or panic. A user handler is therefore a finite
  script of such commands, tagged with a number that identifies the function value.
  Calls on the \<^verbatim>\<open>http.ResponseWriter\<close> are recorded, not interpreted.
\<close>

datatype rw_call = HeaderSet string string | WriteHeader nat | Write string

datatype cmd = CallNext | CallHalt | StoreSet string string | Respond rw_call | Panic

text \<open>
  The three function literals of \<^verbatim>\<open>New\<close> (lines 50--61) and the handlers a user passes in.
\<close>

datatype handler =
    DefaultNotFound
  | DefaultMethodNotAllowed
  | DefaultInternalServerError
  | UserHandler nat "cmd list"

datatype event = Invoked handler | Wrote nat rw_call

text \<open>A call either returns or panics; the state reached is kept in both cases.\<close>

datatype 'a outcome = Returned 'a | Panicked 'a

fun the_state :: "'a outcome \<Rightarrow> 'a" where
  "the_state (Returned x) = x"
| "the_state (Panicked x) = x"


section \<open>Go slices of handlers\<close>

text \<open>
  \<^verbatim>\<open>[]HandlerFunc\<close> is a slice header (pointer, length, capacity) over a backing array.
  \<^verbatim>\<open>Use\<close> and \<^verbatim>\<open>Handle\<close> both \<^verbatim>\<open>append\<close> to \<^verbatim>\<open>b.handlers\<close>, and \<^verbatim>\<open>append\<close> writes into
  the backing array of its first argument whenever the capacity suffices, so the arrays
  are kept in an explicit memory: a list of arrays, an address being an index into it.
  Every slice of this program starts at offset 0 of its array. An array cell holds
  \<open>None\<close> for the nil function value.
\<close>

record slice =
  base :: nat
  slen :: nat
  scap :: nat

type_synonym heap = "handler option list list"

definition nil_slice :: slice where
  "nil_slice = \<lparr>base = 0, slen = 0, scap = 0\<rparr>"

text \<open>The array at an address; the nil slice has capacity 0 and its address is never read.\<close>

definition array_at :: "heap \<Rightarrow> nat \<Rightarrow> handler option list" where
  "array_at m a = (if a < length m then m ! a else [])"

definition slice_read :: "heap \<Rightarrow> slice \<Rightarrow> handler option list" where
  "slice_read m s = take (slen s) (array_at m (base s))"

text \<open>\<^verbatim>\<open>s[k]\<close>: the outer \<open>None\<close> is the index-out-of-range panic.\<close>

definition slice_index :: "heap \<Rightarrow> slice \<Rightarrow> int \<Rightarrow> handler option option" where
  "slice_index m s k =
     (if 0 \<le> k \<and> nat k < length (slice_read m s) then Some (slice_read m s ! nat k)
      else None)"

definition store_at :: "'a list \<Rightarrow> nat \<Rightarrow> 'a list \<Rightarrow> 'a list" where
  "store_at arr n xs = take n arr @ xs @ drop (n + length xs) arr"

text \<open>
  The built-in \<^verbatim>\<open>append(s, xs...)\<close>. When \<^verbatim>\<open>len(s) + len(xs) <= cap(s)\<close> the elements
  are written into the array of \<open>s\<close> behind its length and the result shares that
  array. Otherwise a new array is allocated and the old elements are copied. How much
  capacity the new array gets is the runtime's choice: it is the parameter \<open>grow\<close>
  (old capacity, needed length), and the language only promises that the result fits.
\<close>

definition append_slice ::
  "(nat \<Rightarrow> nat \<Rightarrow> nat) \<Rightarrow> heap \<Rightarrow> slice \<Rightarrow> handler option list \<Rightarrow> heap \<times> slice" where
  "append_slice grow m s xs =
     (let n = slen s + length xs in
      if n \<le> scap s
      then (m[base s := store_at (array_at m (base s)) (slen s) xs], s\<lparr>slen := n\<rparr>)
      else (let c = max n (grow (scap s) n) in
            (m @ [slice_read m s @ xs @ replicate (c - n) None],
             \<lparr>base = length m, slen = n, scap = c\<rparr>)))"

text \<open>
  The growth rule of the gc runtime (\<^verbatim>\<open>runtime.growslice\<close>) for slices of fewer than
  256 elements: the needed length when it exceeds twice the old capacity, else twice
  the old capacity. For pointer-sized elements on a 64-bit target the capacities
  1, 2 and 4 are allocation size classes, so no rounding is added to them.
\<close>

definition gc_growcap :: "nat \<Rightarrow> nat \<Rightarrow> nat" where
  "gc_growcap oldcap needed = (if 2 * oldcap < needed then needed else 2 * oldcap)"

section \<open>The context\<close>

record request =
  Method :: string
  Path :: string

text \<open>
  \<^verbatim>\<open>Params\<close> is a slice of name/value pairs; \<^verbatim>\<open>make(Params, n)\<close> has length and
  capacity \<open>n\<close> and holds zero values.
\<close>

record param_slice =
  pvals :: "(string \<times> string) list"
  pcap :: nat

definition make_Params :: "nat \<Rightarrow> param_slice" where
  "make_Params n = \<lparr>pvals = replicate n ([], []), pcap = n\<rparr>"

text \<open>
  The fields of \<^verbatim>\<open>Context\<close> that \<^verbatim>\<open>bolt.go\<close> touches: \<^verbatim>\<open>Response\<close>, \<^verbatim>\<open>params\<close>,
  \<^verbatim>\<open>store\<close>, \<^verbatim>\<open>i\<close> (line 72--76), \<^verbatim>\<open>handlers\<close> and \<^verbatim>\<open>l\<close> (lines 169--170) and
  \<^verbatim>\<open>Request\<close> (line 179); the fields \<^verbatim>\<open>handlers\<close>, \<^verbatim>\<open>l\<close> and \<^verbatim>\<open>i\<close> are \<open>c_handlers\<close>,
  \<open>c_l\<close> and \<open>c_i\<close> here. The back pointer \<^verbatim>\<open>bolt\<close> is left out. \<open>halted\<close> is the
  halted flag of the specification's data model.

  Modelled from the spec: the response wrapper (the type \<^verbatim>\<open>response\<close>) is not in
  \<^verbatim>\<open>bolt.go\<close>; the context holds "request/response handles" that reset rebinds.
  \<open>Response\<close> is the writer the wrapper is bound to, a number naming the
  \<^verbatim>\<open>http.ResponseWriter\<close> of the request, and \<open>None\<close> for the unbound \<^verbatim>\<open>&response{}\<close> of
  line 72. A call through the wrapper is an event on that writer.
\<close>

record Context =
  Request :: "request option"
  Response :: "nat option"
  params :: param_slice
  store :: "string \<rightharpoonup> string"
  c_handlers :: slice
  c_l :: int
  c_i :: int
  halted :: bool

type_synonym run_state = "Context \<times> event list"

text \<open>
  Modelled from the spec: \<^verbatim>\<open>Context.reset\<close> is not in \<^verbatim>\<open>bolt.go\<close>. "Reset(request,
  response) rebinds the live request/response handles, clears Params to zero length
  (capacity retained), clears Store, resets the cursor, and clears any chain reference
  from a previous cycle." The cursor is reset to the value the pool's factory gives it
  (\<open>-1\<close>: before the first handler) and the halted mark is withdrawn with it.
\<close>

definition reset :: "nat \<Rightarrow> request \<Rightarrow> Context \<Rightarrow> Context" where
  "reset rw r c =
     c\<lparr>Response := Some rw, Request := Some r,
       params := (params c)\<lparr>pvals := []\<rparr>,
       store := Map.empty,
       c_i := - 1, halted := False,
       c_handlers := nil_slice, c_l := 0\<rparr>"

text \<open>
  Modelled from the spec: \<^verbatim>\<open>Context.Halt\<close> is not in \<^verbatim>\<open>bolt.go\<close>. "A Halt() operation
  marks the chain definitively terminated, overriding any later attempt to resume via
  Next()."
\<close>

definition Halt :: "Context \<Rightarrow> Context" where
  "Halt c = c\<lparr>halted := True\<rparr>"

section \<open>Running handlers\<close>

text \<open>
  \<^verbatim>\<open>http.StatusText\<close> and \<^verbatim>\<open>http.Error\<close> of the standard library, for the three codes
  the source uses. \<^verbatim>\<open>http.Error\<close> sets the plain-text headers, writes the status code
  and prints the message followed by a newline.
\<close>

definition StatusNotFound :: nat where "StatusNotFound = 404"
definition StatusMethodNotAllowed :: nat where "StatusMethodNotAllowed = 405"
definition StatusInternalServerError :: nat where "StatusInternalServerError = 500"

definition StatusText :: "nat \<Rightarrow> string" where
  "StatusText code =
     (if code = 404 then ''Not Found''
      else if code = 405 then ''Method Not Allowed''
      else if code = 500 then ''Internal Server Error''
      else [])"

definition http_Error :: "string \<Rightarrow> nat \<Rightarrow> cmd list" where
  "http_Error msg code =
     [Respond (HeaderSet ''Content-Type'' ''text/plain; charset=utf-8''),
      Respond (HeaderSet ''X-Content-Type-Options'' ''nosniff''),
      Respond (WriteHeader code),
      Respond (Write (msg @ [CHR 0x0A]))]"

text \<open>The body of a handler: lines 50--61 for the three defaults.\<close>

fun handler_body :: "handler \<Rightarrow> cmd list" where
  "handler_body DefaultNotFound =
     http_Error (StatusText StatusNotFound) StatusNotFound @ [CallHalt]"
| "handler_body DefaultMethodNotAllowed =
     http_Error (StatusText StatusMethodNotAllowed) StatusMethodNotAllowed @ [CallHalt]"
| "handler_body DefaultInternalServerError =
     http_Error (StatusText StatusInternalServerError) StatusInternalServerError @ [CallHalt]"
| "handler_body (UserHandler k cs) = cs"

text \<open>
  Running a script. \<open>nx\<close> is what \<^verbatim>\<open>c.Next()\<close> does. Writing through an unbound response
  wrapper is a nil dereference.
\<close>

fun run :: "(run_state \<Rightarrow> run_state outcome) \<Rightarrow> cmd list \<Rightarrow> run_state \<Rightarrow> run_state outcome" where
  "run nx [] st = Returned st"
| "run nx (CallNext # cs) st =
     (case nx st of Returned st' \<Rightarrow> run nx cs st' | Panicked st' \<Rightarrow> Panicked st')"
| "run nx (CallHalt # cs) st = run nx cs (Halt (fst st), snd st)"
| "run nx (StoreSet k v # cs) st =
     run nx cs ((fst st)\<lparr>store := (store (fst st))(k \<mapsto> v)\<rparr>, snd st)"
| "run nx (Respond w # cs) st =
     (case Response (fst st) of
        None \<Rightarrow> Panicked st
      | Some rw \<Rightarrow> run nx cs (fst st, snd st @ [Wrote rw w]))"
| "run nx (Panic # cs) st = Panicked st"

definition invoke :: "(run_state \<Rightarrow> run_state outcome) \<Rightarrow> handler \<Rightarrow> run_state \<Rightarrow> run_state outcome" where
  "invoke nx h st = run nx (handler_body h) (fst st, snd st @ [Invoked h])"

text \<open>Calling a function value that may be nil.\<close>

definition call :: "(run_state \<Rightarrow> run_state outcome) \<Rightarrow> handler option \<Rightarrow> run_state \<Rightarrow> run_state outcome" where
  "call nx f st = (case f of None \<Rightarrow> Panicked st | Some h \<Rightarrow> invoke nx h st)"

text \<open>
  Modelled from the spec: \<^verbatim>\<open>Context.Next\<close> is not in \<^verbatim>\<open>bolt.go\<close>. "A Next() operation
  advances the cursor and invokes the handler at the new position, if any remain; it is
  re-entrant", and a halted chain is not resumed. The handler that is invoked may call
  \<^verbatim>\<open>Next\<close> again, on a cursor that has advanced: the first argument bounds the number of
  handlers behind the cursor, which makes the recursion primitive.
  \<open>Next\<close> starts it with that number, and that is enough: \<open>Next\<close> satisfies the
  recursive equation of the method (lemma \<open>Next_unfold\<close>).
\<close>

primrec Next_upto :: "nat \<Rightarrow> heap \<Rightarrow> run_state \<Rightarrow> run_state outcome" where
  "Next_upto 0 m st = Returned ((fst st)\<lparr>c_i := c_i (fst st) + 1\<rparr>, snd st)"
| "Next_upto (Suc k) m st =
     (let c = (fst st)\<lparr>c_i := c_i (fst st) + 1\<rparr> in
      if c_i c < c_l c \<and> \<not> halted c
      then (case slice_index m (c_handlers c) (c_i c) of
              None \<Rightarrow> Panicked (c, snd st)
            | Some f \<Rightarrow> call (Next_upto k m) f (c, snd st))
      else Returned (c, snd st))"

definition Next :: "heap \<Rightarrow> run_state \<Rightarrow> run_state outcome" where
  "Next m st = Next_upto (nat (c_l (fst st) - c_i (fst st) - 1)) m st"

section \<open>The router\<close>

text \<open>
  What \<^verbatim>\<open>Handle\<close> hands to \<^verbatim>\<open>Router.Add\<close> is the function literal of lines 168--172; it
  captures the flattened slice \<open>h\<close> and its length \<open>l\<close>.
\<close>

datatype routefn = Closure slice int

fun call_route :: "heap \<Rightarrow> routefn \<Rightarrow> run_state \<Rightarrow> run_state outcome" where
  "call_route m (Closure h n) st = Next m ((fst st)\<lparr>c_handlers := h, c_l := n\<rparr>, snd st)"

text \<open>The chain a route closure runs, as the memory holds it.\<close>

fun route_chain :: "heap \<Rightarrow> routefn \<Rightarrow> handler option list" where
  "route_chain m (Closure h n) = take (nat n) (slice_read m h)"

text \<open>
  The status that \<^verbatim>\<open>Find\<close> returns. Line 202 and line 204 name \<^verbatim>\<open>NotFound\<close> and
  \<^verbatim>\<open>NotAllowed\<close>; the constants are declared with the router, and the third value is the
  \<open>Matched\<close> of the specification.
\<close>

datatype status = Matched | NotFound | NotAllowed

datatype fault = RegistrationConflict

text \<open>
  Modelled from the spec: the router (\<^verbatim>\<open>NewRouter\<close>, \<^verbatim>\<open>Add\<close>, \<^verbatim>\<open>Find\<close>) is not in
  \<^verbatim>\<open>bolt.go\<close>. A node has a mapping from literal segments to children, at most one
  parameter child with its capture name, at most one wildcard child, and a mapping from
  methods to handlers.
\<close>

datatype node =
  Node (literalChildren: "(string \<times> node) list")
       (paramChild: "(string \<times> node) option")
       (wildcardChild: "node option")
       (handlersByMethod: "(string \<times> routefn) list")

definition NewRouter :: node where
  "NewRouter = Node [] None None []"

fun put_assoc :: "'k \<Rightarrow> 'v \<Rightarrow> ('k \<times> 'v) list \<Rightarrow> ('k \<times> 'v) list" where
  "put_assoc k v [] = [(k, v)]"
| "put_assoc k v (p # ps) = (if fst p = k then (k, v) # ps else p # put_assoc k v ps)"

text \<open>Segments: the text between the slashes.\<close>

fun split_path :: "string \<Rightarrow> string list" where
  "split_path [] = [[]]"
| "split_path (c # cs) =
     (if c = CHR ''/'' then [] # split_path cs
      else (case split_path cs of [] \<Rightarrow> [[c]] | s # ss \<Rightarrow> (c # s) # ss))"

fun join_path :: "string list \<Rightarrow> string" where
  "join_path [] = []"
| "join_path [s] = s"
| "join_path (s # t # ss) = s @ ''/'' @ join_path (t # ss)"

definition is_param :: "string \<Rightarrow> bool" where
  "is_param seg = (case seg of [] \<Rightarrow> False | c # cs \<Rightarrow> c = CHR '':'')"

definition set_handler :: "string \<Rightarrow> routefn \<Rightarrow> node \<Rightarrow> node" where
  "set_handler method h n =
     Node (literalChildren n) (paramChild n) (wildcardChild n)
          (put_assoc method h (handlersByMethod n))"

text \<open>
  Modelled from the spec: "Add(method, pattern, chain)": a literal token descends or
  creates a literal child, a \<^verbatim>\<open>:name\<close> token descends or creates the single parameter
  child, a \<^verbatim>\<open>*\<close> token creates the wildcard child and must be last; a second parameter
  name at the same position or a segment after a wildcard is a fatal conflict. At the
  terminal node the handler of the method is set, overwriting an earlier one.
\<close>

fun add_route :: "string list \<Rightarrow> string \<Rightarrow> routefn \<Rightarrow> node \<Rightarrow> fault + node" where
  "add_route [] method h n = Inr (set_handler method h n)"
| "add_route (seg # rest) method h n =
     (if seg = ''*'' then
        (if rest \<noteq> [] then Inl RegistrationConflict
         else Inr (Node (literalChildren n) (paramChild n)
                     (Some (set_handler method h
                        (case wildcardChild n of None \<Rightarrow> NewRouter | Some w \<Rightarrow> w)))
                     (handlersByMethod n)))
      else if is_param seg then
        (case paramChild n of
           None \<Rightarrow>
             (case add_route rest method h NewRouter of
                Inl e \<Rightarrow> Inl e
              | Inr c \<Rightarrow> Inr (Node (literalChildren n) (Some (tl seg, c))
                               (wildcardChild n) (handlersByMethod n)))
         | Some p \<Rightarrow>
             (if fst p \<noteq> tl seg then Inl RegistrationConflict
              else (case add_route rest method h (snd p) of
                      Inl e \<Rightarrow> Inl e
                    | Inr c \<Rightarrow> Inr (Node (literalChildren n) (Some (tl seg, c))
                                     (wildcardChild n) (handlersByMethod n)))))
      else
        (case add_route rest method h
                (case map_of (literalChildren n) seg of None \<Rightarrow> NewRouter | Some c0 \<Rightarrow> c0) of
           Inl e \<Rightarrow> Inl e
         | Inr c \<Rightarrow> Inr (Node (put_assoc seg c (literalChildren n)) (paramChild n)
                          (wildcardChild n) (handlersByMethod n))))"

definition Router_Add :: "node \<Rightarrow> string \<Rightarrow> string \<Rightarrow> routefn \<Rightarrow> fault + node" where
  "Router_Add root method path h = add_route (split_path path) method h root"

text \<open>
  Modelled from the spec: "Find(method, path)": descend by segment, a literal child
  first, else the parameter child (the segment is bound to its name), else the wildcard
  child (the rest of the path is bound as one capture, under the name \<^verbatim>\<open>*\<close> here, and
  the descent stops). No node, or a node without any handler: \<open>NotFound\<close>; handlers for
  other methods only: \<open>NotAllowed\<close>; a handler for the method: \<open>Matched\<close>.
\<close>

fun descend ::
  "string list \<Rightarrow> node \<Rightarrow> (string \<times> string) list \<Rightarrow> (node \<times> (string \<times> string) list) option" where
  "descend [] n ps = Some (n, ps)"
| "descend (seg # rest) n ps =
     (case map_of (literalChildren n) seg of
        Some c \<Rightarrow> descend rest c ps
      | None \<Rightarrow>
          (case paramChild n of
             Some p \<Rightarrow> descend rest (snd p) (ps @ [(fst p, seg)])
           | None \<Rightarrow>
               (case wildcardChild n of
                  Some w \<Rightarrow> Some (w, ps @ [(''*'', join_path (seg # rest))])
                | None \<Rightarrow> None)))"

definition Find ::
  "node \<Rightarrow> string \<Rightarrow> string \<Rightarrow> routefn option \<times> (string \<times> string) list \<times> status" where
  "Find root method path =
     (case descend (split_path path) root [] of
        None \<Rightarrow> (None, [], NotFound)
      | Some np \<Rightarrow>
          (if handlersByMethod (fst np) = [] then (None, snd np, NotFound)
           else (case map_of (handlersByMethod (fst np)) method of
                   Some h \<Rightarrow> (Some h, snd np, Matched)
                 | None \<Rightarrow> (None, snd np, NotAllowed))))"

section \<open>Bolt: construction and options\<close>

text \<open>
  The struct of lines 10--18. \<open>pool\<close> holds the contexts that were put back; the
  factory \<^verbatim>\<open>pool.New\<close> is \<open>pool_New\<close> below.
\<close>

record Bolt =
  Router :: node
  handlers :: slice
  maxParam :: "8 word"
  notFoundHandler :: "handler option"
  methodNotAllowedHandler :: "handler option"
  internalServerErrorHandler :: "handler option"
  pool :: "Context list"

text \<open>The four option constructors, lines 85--112.\<close>

datatype bolt_option =
    MaxParam "8 word"
  | NotFoundHandler "handler option"
  | MethodNotAllowedHandler "handler option"
  | InternalServerErrorHandler "handler option"

fun apply_option :: "bolt_option \<Rightarrow> Bolt \<Rightarrow> Bolt" where
  "apply_option (MaxParam n) b = b\<lparr>maxParam := n\<rparr>"
| "apply_option (NotFoundHandler h) b = b\<lparr>notFoundHandler := h\<rparr>"
| "apply_option (MethodNotAllowedHandler h) b = b\<lparr>methodNotAllowedHandler := h\<rparr>"
| "apply_option (InternalServerErrorHandler h) b = b\<lparr>internalServerErrorHandler := h\<rparr>"

fun is_MaxParam :: "bolt_option \<Rightarrow> bool" where
  "is_MaxParam (MaxParam n) = True"
| "is_MaxParam (NotFoundHandler h) = False"
| "is_MaxParam (MethodNotAllowedHandler h) = False"
| "is_MaxParam (InternalServerErrorHandler h) = False"

text \<open>Lines 47--81: the literal with its defaults, the options in order, the router.\<close>

definition Bolt_literal :: Bolt where
  "Bolt_literal =
     \<lparr>Router = NewRouter, handlers = nil_slice, maxParam = 5,
      notFoundHandler = Some DefaultNotFound,
      methodNotAllowedHandler = Some DefaultMethodNotAllowed,
      internalServerErrorHandler = Some DefaultInternalServerError,
      pool = []\<rparr>"

definition New :: "bolt_option list \<Rightarrow> Bolt" where
  "New opts = (fold apply_option opts Bolt_literal)\<lparr>Router := NewRouter\<rparr>"

text \<open>Lines 70--78: the factory of the pool.\<close>

definition pool_New :: "Bolt \<Rightarrow> Context" where
  "pool_New b =
     \<lparr>Request = None, Response = None,
      params = make_Params (unat (maxParam b)),
      store = Map.empty,
      c_handlers = nil_slice, c_l = 0, c_i = - 1, halted = False\<rparr>"

text \<open>
  \<^verbatim>\<open>sync.Pool\<close>: \<^verbatim>\<open>Get\<close> hands out a pooled value or, when there is none, a fresh one
  from the factory; \<^verbatim>\<open>Put\<close> adds a value.
\<close>

definition pool_Get :: "Bolt \<Rightarrow> Context \<times> Bolt" where
  "pool_Get b = (case pool b of [] \<Rightarrow> (pool_New b, b) | c # cs \<Rightarrow> (c, b\<lparr>pool := cs\<rparr>))"

definition pool_Put :: "Context \<Rightarrow> Bolt \<Rightarrow> Bolt" where
  "pool_Put c b = b\<lparr>pool := c # pool b\<rparr>"

section \<open>Registration\<close>

text \<open>Lines 115--117.\<close>

definition Use :: "(nat \<Rightarrow> nat \<Rightarrow> nat) \<Rightarrow> handler option list \<Rightarrow> heap \<times> Bolt \<Rightarrow> heap \<times> Bolt" where
  "Use grow h mb =
     (case append_slice grow (fst mb) (handlers (snd mb)) h of
        (m', s) \<Rightarrow> (m', (snd mb)\<lparr>handlers := s\<rparr>))"

text \<open>Lines 165--173. A conflict in the router aborts the program.\<close>

definition Handle ::
  "(nat \<Rightarrow> nat \<Rightarrow> nat) \<Rightarrow> string \<Rightarrow> string \<Rightarrow> handler option list \<Rightarrow> heap \<times> Bolt
     \<Rightarrow> fault + heap \<times> Bolt" where
  "Handle grow method path h mb =
     (case append_slice grow (fst mb) (handlers (snd mb)) h of
        (m', h') \<Rightarrow>
          (let n = int (slen h') in
           case Router_Add (Router (snd mb)) method path (Closure h' n) of
             Inl e \<Rightarrow> Inl e
           | Inr root \<Rightarrow> Inr (m', (snd mb)\<lparr>Router := root\<rparr>)))"

text \<open>Lines 120--162.\<close>

definition Connect where "Connect grow path h mb = Handle grow ''CONNECT'' path h mb"
definition Delete where "Delete grow path h mb = Handle grow ''DELETE'' path h mb"
definition Get where "Get grow path h mb = Handle grow ''GET'' path h mb"
definition Head where "Head grow path h mb = Handle grow ''HEAD'' path h mb"
definition Options where "Options grow path h mb = Handle grow ''OPTIONS'' path h mb"
definition Patch where "Patch grow path h mb = Handle grow ''PATCH'' path h mb"
definition Post where "Post grow path h mb = Handle grow ''POST'' path h mb"
definition Put where "Put grow path h mb = Handle grow ''PUT'' path h mb"
definition Trace where "Trace grow path h mb = Handle grow ''TRACE'' path h mb"

text \<open>Lines 34--44.\<close>

definition MethodMap :: "(string \<times> 8 word) list" where
  "MethodMap =
     [(''CONNECT'', 1), (''DELETE'', 2), (''GET'', 3), (''HEAD'', 4), (''OPTIONS'', 5),
      (''PATCH'', 6), (''POST'', 7), (''PUT'', 8), (''TRACE'', 9)]"

text \<open>A program of registration calls, run in order; it stops at a conflict.\<close>

datatype reg_call =
    CallUse "handler option list"
  | CallHandle string string "handler option list"

fun reg_step :: "(nat \<Rightarrow> nat \<Rightarrow> nat) \<Rightarrow> reg_call \<Rightarrow> heap \<times> Bolt \<Rightarrow> fault + heap \<times> Bolt" where
  "reg_step grow (CallUse h) mb = Inr (Use grow h mb)"
| "reg_step grow (CallHandle method path h) mb = Handle grow method path h mb"

fun register :: "(nat \<Rightarrow> nat \<Rightarrow> nat) \<Rightarrow> reg_call list \<Rightarrow> heap \<times> Bolt \<Rightarrow> fault + heap \<times> Bolt" where
  "register grow [] mb = Inr mb"
| "register grow (x # xs) mb =
     (case reg_step grow x mb of Inl e \<Rightarrow> Inl e | Inr mb' \<Rightarrow> register grow xs mb')"

section \<open>Dispatch\<close>

text \<open>
  Modelled from the spec: the \<^verbatim>\<open>Find\<close> of line 197 returns the handler, a context and
  the status; the router that does it is not in \<^verbatim>\<open>bolt.go\<close>. The context is acquired
  from the pool ("Acquire returns an available Context or constructs a new one if none
  is idle") and carries the bound parameters. The capacity of \<^verbatim>\<open>Params\<close> is not
  enforced: the specification calls exceeding it a configuration error and gives it no
  behaviour.
\<close>

definition Router_Find :: "Bolt \<Rightarrow> string \<Rightarrow> string \<Rightarrow> (routefn option \<times> Context \<times> status) \<times> Bolt" where
  "Router_Find b method path =
     (case pool_Get b of
        (c, b') \<Rightarrow>
          (case Find (Router b) method path of
             (h, ps, s) \<Rightarrow> ((h, c\<lparr>params := (params c)\<lparr>pvals := ps\<rparr>\<rparr>, s), b')))"

text \<open>
  Lines 198--208, for whatever line 197 returned: reset, the call of the handler or of a
  fallback, and the \<^verbatim>\<open>Put\<close>, which a panic skips. The result is the \<^verbatim>\<open>Bolt\<close> with its
  pool and the events so far.
\<close>

definition ServeHTTP_from ::
  "heap \<Rightarrow> Bolt \<Rightarrow> routefn option \<times> Context \<times> status \<Rightarrow> nat \<Rightarrow> request \<Rightarrow> event list
     \<Rightarrow> (Bolt \<times> event list) outcome" where
  "ServeHTTP_from m b found rw r tr =
     (case found of
        (h, c0, s) \<Rightarrow>
          (let c = reset rw r c0 in
           case (case h of
                   Some f \<Rightarrow> call_route m f (c, tr)
                 | None \<Rightarrow>
                     (if s = NotFound then call (Next m) (notFoundHandler b) (c, tr)
                      else if s = NotAllowed then call (Next m) (methodNotAllowedHandler b) (c, tr)
                      else Returned (c, tr))) of
             Returned st \<Rightarrow> Returned (pool_Put (fst st) b, snd st)
           | Panicked st \<Rightarrow> Panicked (b, snd st)))"

text \<open>Lines 195--209.\<close>

definition ServeHTTP ::
  "heap \<Rightarrow> Bolt \<Rightarrow> nat \<Rightarrow> request \<Rightarrow> event list \<Rightarrow> (Bolt \<times> event list) outcome" where
  "ServeHTTP m b rw r tr =
     (case Router_Find b (Method r) (Path r) of
        (found, b') \<Rightarrow> ServeHTTP_from m b' found rw r tr)"

text \<open>The handlers a sequence of events shows as invoked, in order.\<close>

fun invoked :: "event list \<Rightarrow> handler list" where
  "invoked [] = []"
| "invoked (Invoked h # es) = h # invoked es"
| "invoked (Wrote rw w # es) = invoked es"

text \<open>Line 208 after a call that returned; a panic leaves the pool as it was.\<close>

definition release :: "Bolt \<Rightarrow> run_state outcome \<Rightarrow> (Bolt \<times> event list) outcome" where
  "release b res =
     (case res of
        Returned st \<Rightarrow> Returned (pool_Put (fst st) b, snd st)
      | Panicked st \<Rightarrow> Panicked (b, snd st))"

text \<open>The handlers of the chain a context is bound to.\<close>

definition chain_set :: "heap \<Rightarrow> Context \<Rightarrow> handler set" where
  "chain_set m c = {h. Some h \<in> set (take (nat (c_l c)) (slice_read m (c_handlers c)))}"

text \<open>
  What running handlers does to the state of a request: events are only added, the
  invoked handlers are of the chain, the chain and its length stay, the cursor does not
  go back, the handles stay, and a halted chain stays halted.
\<close>

definition frame :: "heap \<Rightarrow> run_state \<Rightarrow> run_state \<Rightarrow> bool" where
  "frame m st st' \<longleftrightarrow>
     (\<exists>new. snd st' = snd st @ new \<and> set (invoked new) \<subseteq> chain_set m (fst st)) \<and>
     c_handlers (fst st') = c_handlers (fst st) \<and>
     c_l (fst st') = c_l (fst st) \<and>
     c_i (fst st) \<le> c_i (fst st') \<and>
     Response (fst st') = Response (fst st) \<and>
     Request (fst st') = Request (fst st) \<and>
     params (fst st') = params (fst st) \<and>
     (halted (fst st) \<longrightarrow> halted (fst st'))"

section \<open>Example values\<close>

text \<open>Handlers, a registration program and a request, for evaluating the definitions.\<close>

definition ex_mw :: "nat \<Rightarrow> handler" where
  "ex_mw k = UserHandler k [CallNext]"

definition ex_hA :: handler where
  "ex_hA = UserHandler 10 [Respond (Write ''A'')]"

definition ex_hB :: handler where
  "ex_hB = UserHandler 11 [Respond (Write ''B'')]"

definition ex_prog :: "reg_call list" where
  "ex_prog =
     [CallUse [Some (ex_mw 1)], CallUse [Some (ex_mw 2)], CallUse [Some (ex_mw 3)],
      CallHandle ''GET'' ''/a'' [Some ex_hA],
      CallHandle ''GET'' ''/b'' [Some ex_hB]]"

definition ex_req :: request where
  "ex_req = \<lparr>Method = ''GET'', Path = ''/a''\<rparr>"

text \<open>
  A memory with one array, a route closure over it, and a context as a finished request
  may leave it in the pool: parameters, a stored value, the cursor at the end, halted.
\<close>

definition ex_mem :: heap where
  "ex_mem = [[Some (ex_mw 1), Some ex_hA]]"

definition ex_route :: routefn where
  "ex_route = Closure \<lparr>base = 0, slen = 2, scap = 2\<rparr> 2"

definition ex_stale :: Context where
  "ex_stale =
     \<lparr>Request = None, Response = Some 3,
      params = \<lparr>pvals = [(''id'', ''42'')], pcap = 5\<rparr>,
      store = [''user'' \<mapsto> ''alice''],
      c_handlers = \<lparr>base = 0, slen = 2, scap = 2\<rparr>, c_l = 2, c_i = 2, halted = True\<rparr>"

text \<open>
  The chain the route of a method and path runs once a program of registration calls
  has been carried out on a new \<^verbatim>\<open>Bolt\<close>.
\<close>

definition registered_chain ::
  "(nat \<Rightarrow> nat \<Rightarrow> nat) \<Rightarrow> reg_call list \<Rightarrow> string \<Rightarrow> string \<Rightarrow> handler option list option" where
  "registered_chain grow calls method path =
     (case register grow calls ([], New []) of
        Inl e \<Rightarrow> None
      | Inr mb \<Rightarrow>
          (case fst (Find (Router (snd mb)) method path) of
             None \<Rightarrow> None
           | Some f \<Rightarrow> Some (route_chain (fst mb) f)))"

text \<open>
  A chain in which the not-found default stands between a middleware that calls
  \<^verbatim>\<open>Next\<close> twice and a user handler, the same chain with a handler that does nothing
  in its place, and two routes with a parameter and a wildcard.
\<close>

definition ex_twice :: handler where
  "ex_twice = UserHandler 20 [CallNext, CallNext]"

definition ex_mem_halt :: heap where
  "ex_mem_halt = [[Some ex_twice, Some DefaultNotFound, Some ex_hA]]"

definition ex_mem_plain :: heap where
  "ex_mem_plain = [[Some ex_twice, Some (UserHandler 21 []), Some ex_hA]]"

definition ex_route3 :: routefn where
  "ex_route3 = Closure \<lparr>base = 0, slen = 3, scap = 3\<rparr> 3"

definition ex_routes :: "reg_call list" where
  "ex_routes =
     [CallHandle ''GET'' ''/users/:id'' [Some ex_hA],
      CallHandle ''GET'' ''/files/*'' [Some ex_hB]]"

definition ex_root :: node where
  "ex_root = (case register gc_growcap ex_routes ([], New []) of
                Inl e \<Rightarrow> NewRouter | Inr mb \<Rightarrow> Router (snd mb))"

text \<open>
  Three handlers that write before and after calling \<^verbatim>\<open>Next\<close>, a variant of the second
  that does not call \<^verbatim>\<open>Next\<close>, and the chains of both.
\<close>

definition ex_onion :: "nat \<Rightarrow> string \<Rightarrow> handler" where
  "ex_onion k name =
     UserHandler k [Respond (Write (name @ ''-pre'')), CallNext, Respond (Write (name @ ''-post''))]"

definition ex_stop :: "nat \<Rightarrow> string \<Rightarrow> handler" where
  "ex_stop k name =
     UserHandler k [Respond (Write (name @ ''-pre'')), Respond (Write (name @ ''-post''))]"

definition ex_mem_onion :: heap where
  "ex_mem_onion =
     [[Some (ex_onion 31 ''A''), Some (ex_onion 32 ''B''), Some (ex_onion 33 ''C'')],
      [Some (ex_onion 31 ''A''), Some (ex_stop 32 ''B''), Some (ex_onion 33 ''C'')]]"

section \<open>Auxiliary notions for registration\<close>

text \<open>
  A slice is well placed in a memory when its length is within its capacity and, unless
  the capacity is 0, its address holds an array of exactly that capacity.
\<close>

definition slice_ok :: "heap \<Rightarrow> slice \<Rightarrow> bool" where
  "slice_ok m s \<longleftrightarrow>
     slen s \<le> scap s \<and> (scap s = 0 \<or> (base s < length m \<and> length (m ! base s) = scap s))"

text \<open>The function literal of lines 168--172 as \<^verbatim>\<open>Handle\<close> builds it (lines 166--167).\<close>

definition Handle_closure ::
  "(nat \<Rightarrow> nat \<Rightarrow> nat) \<Rightarrow> handler option list \<Rightarrow> heap \<times> Bolt \<Rightarrow> routefn" where
  "Handle_closure grow h mb =
     (case append_slice grow (fst mb) (handlers (snd mb)) h of
        (m', h') \<Rightarrow> Closure h' (int (slen h')))"

text \<open>The middleware a program of registration calls passes to \<^verbatim>\<open>Use\<close>, in order.\<close>

fun uses :: "reg_call list \<Rightarrow> handler option list" where
  "uses [] = []"
| "uses (CallUse h # cs) = h @ uses cs"
| "uses (CallHandle method path h # cs) = uses cs"

section \<open>Running handlers: what every call preserves\<close>

lemma invoked_append: "invoked (xs @ ys) = invoked xs @ invoked ys"
  by (induction xs rule: invoked.induct) simp_all

lemma frame_refl: "frame m st st"
  by (simp add: frame_def)

lemma chain_set_cong:
  "c_handlers c' = c_handlers c \<Longrightarrow> c_l c' = c_l c \<Longrightarrow> chain_set m c' = chain_set m c"
  by (simp add: chain_set_def)

lemma frame_trans:
  assumes "frame m st st'" and "frame m st' st''"
  shows "frame m st st''"
proof -
  from assms(1) obtain new where n1: "snd st' = snd st @ new"
    and s1: "set (invoked new) \<subseteq> chain_set m (fst st)"
    by (auto simp: frame_def)
  from assms(2) obtain new' where n2: "snd st'' = snd st' @ new'"
    and s2: "set (invoked new') \<subseteq> chain_set m (fst st')"
    by (auto simp: frame_def)
  have cs: "chain_set m (fst st') = chain_set m (fst st)"
    using assms(1) by (simp add: frame_def chain_set_def)
  have "snd st'' = snd st @ (new @ new')" using n1 n2 by simp
  moreover have "set (invoked (new @ new')) \<subseteq> chain_set m (fst st)"
    using s1 s2 cs by (simp add: invoked_append)
  ultimately have ex: "\<exists>n. snd st'' = snd st @ n \<and> set (invoked n) \<subseteq> chain_set m (fst st)"
    by blast
  have a: "c_handlers (fst st') = c_handlers (fst st)" "c_l (fst st') = c_l (fst st)"
    "c_i (fst st) \<le> c_i (fst st')" "Response (fst st') = Response (fst st)"
    "Request (fst st') = Request (fst st)" "params (fst st') = params (fst st)"
    "halted (fst st) \<longrightarrow> halted (fst st')"
    using assms(1) unfolding frame_def by blast+
  have b: "c_handlers (fst st'') = c_handlers (fst st')" "c_l (fst st'') = c_l (fst st')"
    "c_i (fst st') \<le> c_i (fst st'')" "Response (fst st'') = Response (fst st')"
    "Request (fst st'') = Request (fst st')" "params (fst st'') = params (fst st')"
    "halted (fst st') \<longrightarrow> halted (fst st'')"
    using assms(2) unfolding frame_def by blast+
  show ?thesis
    unfolding frame_def using ex a b by (intro conjI) simp_all
qed

lemma frame_Halt: "frame m st (Halt (fst st), snd st)"
  by (simp add: frame_def Halt_def)

lemma frame_StoreSet: "frame m st ((fst st)\<lparr>store := f\<rparr>, snd st)"
  by (simp add: frame_def chain_set_def)

lemma frame_Wrote: "frame m st (fst st, snd st @ [Wrote rw w])"
  by (simp add: frame_def)

lemma run_frame:
  assumes nx: "\<And>s. frame m s (the_state (nx s))"
  shows "frame m st (the_state (run nx cs st))"
proof (induction cs arbitrary: st)
  case Nil
  show ?case by (simp add: frame_refl)
next
  case (Cons x cs)
  show ?case
  proof (cases x)
    case CallNext
    show ?thesis
    proof (cases "nx st")
      case (Returned st')
      have "frame m st st'" using nx [of st] Returned by simp
      then have "frame m st (the_state (run nx cs st'))"
        using Cons.IH [of st'] by (rule frame_trans)
      then show ?thesis using CallNext Returned by simp
    next
      case (Panicked st')
      have "frame m st st'" using nx [of st] Panicked by simp
      then show ?thesis using CallNext Panicked by simp
    qed
  next
    case CallHalt
    have "frame m st (the_state (run nx cs (Halt (fst st), snd st)))"
      using frame_Halt [of m st] Cons.IH [of "(Halt (fst st), snd st)"] by (rule frame_trans)
    then show ?thesis using CallHalt by simp
  next
    case (StoreSet k v)
    have "frame m st (the_state (run nx cs ((fst st)\<lparr>store := (store (fst st))(k \<mapsto> v)\<rparr>, snd st)))"
      using frame_StoreSet [of m st] Cons.IH by (rule frame_trans)
    then show ?thesis using StoreSet by simp
  next
    case (Respond w)
    show ?thesis
    proof (cases "Response (fst st)")
      case None
      then show ?thesis using Respond by (simp add: frame_refl)
    next
      case (Some rw)
      have "frame m st (the_state (run nx cs (fst st, snd st @ [Wrote rw w])))"
        using frame_Wrote [of m st] Cons.IH by (rule frame_trans)
      then show ?thesis using Respond Some by simp
    qed
  next
    case Panic
    then show ?thesis by (simp add: frame_refl)
  qed
qed

lemma slice_index_chain:
  assumes "slice_index m (c_handlers c) (c_i c) = Some (Some h)" and "c_i c < c_l c"
  shows "h \<in> chain_set m c"
proof -
  from assms(1) have k: "0 \<le> c_i c" "nat (c_i c) < length (slice_read m (c_handlers c))"
    and v: "slice_read m (c_handlers c) ! nat (c_i c) = Some h"
    by (auto simp: slice_index_def split: if_splits)
  have "nat (c_i c) < nat (c_l c)" using k(1) assms(2) by simp
  then have "nat (c_i c) < length (take (nat (c_l c)) (slice_read m (c_handlers c)))"
    using k(2) by simp
  moreover have "take (nat (c_l c)) (slice_read m (c_handlers c)) ! nat (c_i c) = Some h"
    using v \<open>nat (c_i c) < nat (c_l c)\<close> by simp
  ultimately have "Some h \<in> set (take (nat (c_l c)) (slice_read m (c_handlers c)))"
    using nth_mem [of "nat (c_i c)" "take (nat (c_l c)) (slice_read m (c_handlers c))"]
    by simp
  then show ?thesis by (simp add: chain_set_def)
qed

lemma frame_advance: "frame m st ((fst st)\<lparr>c_i := c_i (fst st) + 1\<rparr>, snd st)"
  by (simp add: frame_def chain_set_def)

lemma invoke_frame:
  assumes nx: "\<And>s. frame m s (the_state (nx s))" and h: "h \<in> chain_set m (fst st)"
  shows "frame m st (the_state (invoke nx h st))"
proof -
  have "frame m st (fst st, snd st @ [Invoked h])"
    using h by (simp add: frame_def)
  moreover have "frame m (fst st, snd st @ [Invoked h]) (the_state (invoke nx h st))"
    unfolding invoke_def by (rule run_frame [OF nx])
  ultimately show ?thesis by (rule frame_trans)
qed

lemma Next_upto_Suc:
  "Next_upto (Suc k) m st =
     (if c_i (fst st) + 1 < c_l (fst st) \<and> \<not> halted (fst st)
      then (case slice_index m (c_handlers (fst st)) (c_i (fst st) + 1) of
              None \<Rightarrow> Panicked ((fst st)\<lparr>c_i := c_i (fst st) + 1\<rparr>, snd st)
            | Some f \<Rightarrow> call (Next_upto k m) f ((fst st)\<lparr>c_i := c_i (fst st) + 1\<rparr>, snd st))
      else Returned ((fst st)\<lparr>c_i := c_i (fst st) + 1\<rparr>, snd st))"
  by (simp add: Let_def)

lemma Next_upto_frame: "frame m st (the_state (Next_upto k m st))"
proof (induction k arbitrary: st)
  case 0
  show ?case using frame_advance [of m st] by simp
next
  case (Suc k)
  define c where "c = (fst st)\<lparr>c_i := c_i (fst st) + 1\<rparr>"
  have adv: "frame m st (c, snd st)" unfolding c_def by (rule frame_advance)
  have ci: "c_i c = c_i (fst st) + 1" and cl: "c_l c = c_l (fst st)"
    and ch: "c_handlers c = c_handlers (fst st)"
    by (simp_all add: c_def)
  show ?case
  proof (cases "c_i (fst st) + 1 < c_l (fst st) \<and> \<not> halted (fst st)")
    case False
    then have "Next_upto (Suc k) m st = Returned (c, snd st)"
      by (subst Next_upto_Suc) (simp only: if_False c_def)
    with adv show ?thesis by simp
  next
    case True
    show ?thesis
    proof (cases "slice_index m (c_handlers (fst st)) (c_i (fst st) + 1)")
      case None
      with True have "Next_upto (Suc k) m st = Panicked (c, snd st)"
        by (subst Next_upto_Suc) (simp add: c_def)
      with adv show ?thesis by simp
    next
      case (Some f)
      with True have eq: "Next_upto (Suc k) m st = call (Next_upto k m) f (c, snd st)"
        by (subst Next_upto_Suc) (simp add: c_def)
      show ?thesis
      proof (cases f)
        case None
        with eq adv show ?thesis by (simp add: call_def)
      next
        case (Some h)
        have "slice_index m (c_handlers c) (c_i c) = Some (Some h)"
          using \<open>slice_index m (c_handlers (fst st)) (c_i (fst st) + 1) = Some f\<close> Some
          by (simp add: ci ch)
        moreover have "c_i c < c_l c" using True by (simp add: ci cl)
        ultimately have "h \<in> chain_set m c" by (rule slice_index_chain)
        then have "h \<in> chain_set m (fst (c, snd st))" by simp
        then have "frame m (c, snd st) (the_state (invoke (Next_upto k m) h (c, snd st)))"
          by (rule invoke_frame [OF Suc.IH])
        with adv have "frame m st (the_state (invoke (Next_upto k m) h (c, snd st)))"
          by (rule frame_trans)
        with eq Some show ?thesis by (simp add: call_def)
      qed
    qed
  qed
qed

lemma Next_frame: "frame m st (the_state (Next m st))"
  by (simp add: Next_def Next_upto_frame)

section \<open>The equation of Next\<close>

lemma frame_fields:
  assumes "frame m st st'"
  shows "c_l (fst st') = c_l (fst st)" and "c_i (fst st) \<le> c_i (fst st')"
    and "c_handlers (fst st') = c_handlers (fst st)"
  using assms unfolding frame_def by blast+

lemma run_cong:
  assumes eq: "\<And>s. c_l (fst s) = L \<Longrightarrow> I \<le> c_i (fst s) \<Longrightarrow> nx s = nx' s"
    and fr: "\<And>s. frame m s (the_state (nx s))"
    and "c_l (fst st) = L" and "I \<le> c_i (fst st)"
  shows "run nx cs st = run nx' cs st"
  using assms(3,4)
proof (induction cs arbitrary: st)
  case Nil
  show ?case by simp
next
  case (Cons x cs)
  show ?case
  proof (cases x)
    case CallNext
    have same: "nx st = nx' st" using eq Cons.prems by simp
    show ?thesis
    proof (cases "nx st")
      case (Returned st')
      have "frame m st st'" using fr [of st] Returned by simp
      then have "c_l (fst st') = L" and "I \<le> c_i (fst st')"
        using frame_fields [of m st st'] Cons.prems by simp_all
      then have "run nx cs st' = run nx' cs st'" by (rule Cons.IH)
      then show ?thesis using CallNext Returned same by simp
    next
      case (Panicked st')
      then show ?thesis using CallNext same by simp
    qed
  next
    case CallHalt
    have "run nx cs (Halt (fst st), snd st) = run nx' cs (Halt (fst st), snd st)"
      using Cons.prems by (intro Cons.IH) (simp_all add: Halt_def)
    then show ?thesis using CallHalt by simp
  next
    case (StoreSet k v)
    have "run nx cs ((fst st)\<lparr>store := (store (fst st))(k \<mapsto> v)\<rparr>, snd st)
        = run nx' cs ((fst st)\<lparr>store := (store (fst st))(k \<mapsto> v)\<rparr>, snd st)"
      using Cons.prems by (intro Cons.IH) simp_all
    then show ?thesis using StoreSet by simp
  next
    case (Respond w)
    show ?thesis
    proof (cases "Response (fst st)")
      case None
      then show ?thesis using Respond by simp
    next
      case (Some rw)
      have "run nx cs (fst st, snd st @ [Wrote rw w]) = run nx' cs (fst st, snd st @ [Wrote rw w])"
        using Cons.prems by (intro Cons.IH) simp_all
      then show ?thesis using Respond Some by simp
    qed
  next
    case Panic
    then show ?thesis by simp
  qed
qed

lemma call_cong:
  assumes "\<And>s. c_l (fst s) = L \<Longrightarrow> I \<le> c_i (fst s) \<Longrightarrow> nx s = nx' s"
    and "\<And>s. frame m s (the_state (nx s))"
    and "c_l (fst st) = L" and "I \<le> c_i (fst st)"
  shows "call nx f st = call nx' f st"
proof (cases f)
  case None
  then show ?thesis by (simp add: call_def)
next
  case (Some h)
  have "run nx (handler_body h) (fst st, snd st @ [Invoked h])
      = run nx' (handler_body h) (fst st, snd st @ [Invoked h])"
    using assms by (intro run_cong [where m = m and L = L and I = I]) simp_all
  then show ?thesis using Some by (simp add: call_def invoke_def)
qed

lemma Next_upto_mono:
  "c_l (fst st) - c_i (fst st) - 1 \<le> int k \<Longrightarrow> Next_upto (Suc k) m st = Next_upto k m st"
proof (induction k arbitrary: st)
  case 0
  then have "\<not> (c_i (fst st) + 1 < c_l (fst st) \<and> \<not> halted (fst st))" by simp
  then show ?case by (subst Next_upto_Suc) (simp only: if_False Next_upto.simps)
next
  case (Suc k)
  let ?c = "(fst st)\<lparr>c_i := c_i (fst st) + 1\<rparr>"
  have same: "call (Next_upto (Suc k) m) f (?c, snd st) = call (Next_upto k m) f (?c, snd st)" for f
  proof (rule call_cong [where m = m and L = "c_l ?c" and I = "c_i ?c"])
    fix s :: run_state
    assume "c_l (fst s) = c_l ?c" and "c_i ?c \<le> c_i (fst s)"
    then have "c_l (fst s) - c_i (fst s) - 1 \<le> int k"
      using Suc.prems by simp
    then show "Next_upto (Suc k) m s = Next_upto k m s" by (rule Suc.IH)
  next
    fix s :: run_state
    show "frame m s (the_state (Next_upto (Suc k) m s))" by (rule Next_upto_frame)
  qed simp_all
  have "Next_upto (Suc (Suc k)) m st =
     (if c_i (fst st) + 1 < c_l (fst st) \<and> \<not> halted (fst st)
      then (case slice_index m (c_handlers (fst st)) (c_i (fst st) + 1) of
              None \<Rightarrow> Panicked (?c, snd st)
            | Some f \<Rightarrow> call (Next_upto (Suc k) m) f (?c, snd st))
      else Returned (?c, snd st))"
    by (rule Next_upto_Suc)
  also have "\<dots> =
     (if c_i (fst st) + 1 < c_l (fst st) \<and> \<not> halted (fst st)
      then (case slice_index m (c_handlers (fst st)) (c_i (fst st) + 1) of
              None \<Rightarrow> Panicked (?c, snd st)
            | Some f \<Rightarrow> call (Next_upto k m) f (?c, snd st))
      else Returned (?c, snd st))"
    by (simp only: same)
  also have "\<dots> = Next_upto (Suc k) m st"
    by (rule Next_upto_Suc [symmetric])
  finally show ?case .
qed

lemma Next_upto_enough:
  "c_l (fst st) - c_i (fst st) - 1 \<le> int k \<Longrightarrow> Next_upto k m st = Next m st"
proof (induction k)
  case 0
  then have "nat (c_l (fst st) - c_i (fst st) - 1) = 0" by simp
  then show ?case by (simp add: Next_def)
next
  case (Suc k)
  show ?case
  proof (cases "c_l (fst st) - c_i (fst st) - 1 \<le> int k")
    case True
    then show ?thesis using Suc.IH Next_upto_mono [of st k m] by simp
  next
    case False
    then have "nat (c_l (fst st) - c_i (fst st) - 1) = Suc k" using Suc.prems by simp
    then show ?thesis by (simp only: Next_def)
  qed
qed

text \<open>The equation of Next as the program has it.\<close>

lemma Next_unfold:
  "Next m st =
     (if c_i (fst st) + 1 < c_l (fst st) \<and> \<not> halted (fst st)
      then (case slice_index m (c_handlers (fst st)) (c_i (fst st) + 1) of
              None \<Rightarrow> Panicked ((fst st)\<lparr>c_i := c_i (fst st) + 1\<rparr>, snd st)
            | Some f \<Rightarrow> call (Next m) f ((fst st)\<lparr>c_i := c_i (fst st) + 1\<rparr>, snd st))
      else Returned ((fst st)\<lparr>c_i := c_i (fst st) + 1\<rparr>, snd st))"
proof -
  define k where "k = nat (c_l (fst st) - c_i (fst st))"
  let ?c = "(fst st)\<lparr>c_i := c_i (fst st) + 1\<rparr>"
  have en: "c_l (fst st) - c_i (fst st) - 1 \<le> int (Suc k)" by (simp add: k_def)
  have same: "call (Next_upto k m) f (?c, snd st) = call (Next m) f (?c, snd st)" for f
  proof (rule call_cong [where m = m and L = "c_l ?c" and I = "c_i ?c"])
    fix s :: run_state
    assume "c_l (fst s) = c_l ?c" and "c_i ?c \<le> c_i (fst s)"
    then have "c_l (fst s) - c_i (fst s) - 1 \<le> int k"
      by (simp add: k_def)
    then show "Next_upto k m s = Next m s" by (rule Next_upto_enough)
  next
    fix s :: run_state
    show "frame m s (the_state (Next_upto k m s))" by (rule Next_upto_frame)
  qed simp_all
  have "Next m st = Next_upto (Suc k) m st"
    by (rule Next_upto_enough [OF en, symmetric])
  also have "\<dots> =
     (if c_i (fst st) + 1 < c_l (fst st) \<and> \<not> halted (fst st)
      then (case slice_index m (c_handlers (fst st)) (c_i (fst st) + 1) of
              None \<Rightarrow> Panicked (?c, snd st)
            | Some f \<Rightarrow> call (Next_upto k m) f (?c, snd st))
      else Returned (?c, snd st))"
    by (rule Next_upto_Suc)
  also have "\<dots> =
     (if c_i (fst st) + 1 < c_l (fst st) \<and> \<not> halted (fst st)
      then (case slice_index m (c_handlers (fst st)) (c_i (fst st) + 1) of
              None \<Rightarrow> Panicked (?c, snd st)
            | Some f \<Rightarrow> call (Next m) f (?c, snd st))
      else Returned (?c, snd st))"
    by (simp only: same)
  finally show ?thesis .
qed

lemma Next_halted:
  "halted (fst st) \<Longrightarrow> Next m st = Returned ((fst st)\<lparr>c_i := c_i (fst st) + 1\<rparr>, snd st)"
  by (subst Next_unfold) simp

lemma Next_at_end:
  "c_l (fst st) \<le> c_i (fst st) + 1 \<Longrightarrow>
   Next m st = Returned ((fst st)\<lparr>c_i := c_i (fst st) + 1\<rparr>, snd st)"
  by (subst Next_unfold) simp

text \<open>
  The order of a chain of three: each handler runs its part before \<^verbatim>\<open>Next\<close>, then the
  rest of the chain, then its part after. When the second does not call \<^verbatim>\<open>Next\<close>, the
  third does not run.
\<close>

lemma ex_onion_order:
  "snd (the_state (call_route ex_mem_onion (Closure \<lparr>base = 0, slen = 3, scap = 3\<rparr> 3)
          (reset 7 ex_req ex_stale, []))) =
     [Invoked (ex_onion 31 ''A''), Wrote 7 (Write ''A-pre''),
      Invoked (ex_onion 32 ''B''), Wrote 7 (Write ''B-pre''),
      Invoked (ex_onion 33 ''C''), Wrote 7 (Write ''C-pre''), Wrote 7 (Write ''C-post''),
      Wrote 7 (Write ''B-post''), Wrote 7 (Write ''A-post'')]"
  by code_simp

lemma ex_onion_stop:
  "snd (the_state (call_route ex_mem_onion (Closure \<lparr>base = 1, slen = 3, scap = 3\<rparr> 3)
          (reset 7 ex_req ex_stale, []))) =
     [Invoked (ex_onion 31 ''A''), Wrote 7 (Write ''A-pre''),
      Invoked (ex_stop 32 ''B''), Wrote 7 (Write ''B-pre''), Wrote 7 (Write ''B-post''),
      Wrote 7 (Write ''A-post'')]"
  by code_simp

section \<open>Options and the factory of the pool\<close>

lemma fold_apply_option_maxParam:
  "\<forall>x\<in>set opts. \<not> is_MaxParam x \<Longrightarrow> maxParam (fold apply_option opts b) = maxParam b"
proof (induction opts arbitrary: b)
  case Nil
  then show ?case by simp
next
  case (Cons x xs)
  then have "\<not> is_MaxParam x" and rest: "\<forall>y\<in>set xs. \<not> is_MaxParam y" by simp_all
  then have "maxParam (apply_option x b) = maxParam b" by (cases x) simp_all
  with Cons.IH [OF rest] show ?case by simp
qed

lemma fold_apply_option_pool: "pool (fold apply_option opts b) = pool b"
proof (induction opts arbitrary: b)
  case Nil
  show ?case by simp
next
  case (Cons x xs)
  have "pool (apply_option x b) = pool b" by (cases x) simp_all
  with Cons.IH [of "apply_option x b"] show ?case by simp
qed

lemma fold_apply_option_handlers: "handlers (fold apply_option opts b) = handlers b"
proof (induction opts arbitrary: b)
  case Nil
  show ?case by simp
next
  case (Cons x xs)
  have "handlers (apply_option x b) = handlers b" by (cases x) simp_all
  with Cons.IH [of "apply_option x b"] show ?case by simp
qed

lemma New_fields:
  "maxParam (New opts) = maxParam (fold apply_option opts Bolt_literal)"
  "notFoundHandler (New opts) = notFoundHandler (fold apply_option opts Bolt_literal)"
  "methodNotAllowedHandler (New opts) = methodNotAllowedHandler (fold apply_option opts Bolt_literal)"
  "internalServerErrorHandler (New opts) = internalServerErrorHandler (fold apply_option opts Bolt_literal)"
  "pool (New opts) = []"
  "handlers (New opts) = nil_slice"
  "Router (New opts) = NewRouter"
  by (simp_all add: New_def fold_apply_option_pool fold_apply_option_handlers Bolt_literal_def)

lemma pool_New_params:
  "pcap (params (pool_New b)) = unat (maxParam b)"
  "length (pvals (params (pool_New b))) = unat (maxParam b)"
  by (simp_all add: pool_New_def make_Params_def)

text \<open>
  Claim C9. When \<^verbatim>\<open>New\<close> gets no \<^verbatim>\<open>MaxParam\<close> option, the maximum parameter count is
  5: every context the factory of the pool makes has a \<^verbatim>\<open>Params\<close> of capacity 5 (and of
  length 5, as \<^verbatim>\<open>make\<close> is given one size), and that is the context \<^verbatim>\<open>Get\<close> hands out
  on the new, empty pool.
\<close>

theorem default_maxParam_is_5:
  assumes "\<forall>x\<in>set opts. \<not> is_MaxParam x"
  shows "maxParam (New opts) = 5
       \<and> pcap (params (pool_New (New opts))) = 5
       \<and> length (pvals (params (pool_New (New opts)))) = 5
       \<and> fst (pool_Get (New opts)) = pool_New (New opts)"
proof -
  have "maxParam (New opts) = 5"
    using fold_apply_option_maxParam [OF assms, of Bolt_literal]
    by (simp add: New_fields Bolt_literal_def)
  then show ?thesis
    by (simp add: pool_New_params pool_Get_def New_fields)
qed

theorem default_maxParam_is_5_witness:
  "pcap (params (pool_New (New []))) = 5
   \<and> pcap (params (pool_New (New [NotFoundHandler (Some ex_hA), InternalServerErrorHandler None]))) = 5
   \<and> length (pvals (params (fst (pool_Get (New []))))) = 5"
  using default_maxParam_is_5 [of "[]"]
    default_maxParam_is_5 [of "[NotFoundHandler (Some ex_hA), InternalServerErrorHandler None]"]
  by simp

section \<open>The method helpers\<close>

text \<open>
  Claim C10. Each method helper is the generic registration call with the upper-case
  name of its method: for every path and handler list, \<^verbatim>\<open>Connect\<close>, \<^verbatim>\<open>Delete\<close>, \<^verbatim>\<open>Get\<close>,
  \<^verbatim>\<open>Head\<close>, \<^verbatim>\<open>Options\<close>, \<^verbatim>\<open>Patch\<close>, \<^verbatim>\<open>Post\<close>, \<^verbatim>\<open>Put\<close> and \<^verbatim>\<open>Trace\<close> do to the memory and
  to the \<^verbatim>\<open>Bolt\<close> exactly what \<^verbatim>\<open>Handle\<close> does.
\<close>

theorem method_helpers_are_Handle:
  "Connect grow path h mb = Handle grow ''CONNECT'' path h mb
   \<and> Delete grow path h mb = Handle grow ''DELETE'' path h mb
   \<and> Get grow path h mb = Handle grow ''GET'' path h mb
   \<and> Head grow path h mb = Handle grow ''HEAD'' path h mb
   \<and> Options grow path h mb = Handle grow ''OPTIONS'' path h mb
   \<and> Patch grow path h mb = Handle grow ''PATCH'' path h mb
   \<and> Post grow path h mb = Handle grow ''POST'' path h mb
   \<and> Put grow path h mb = Handle grow ''PUT'' path h mb
   \<and> Trace grow path h mb = Handle grow ''TRACE'' path h mb"
  by (simp add: Connect_def Delete_def Get_def Head_def Options_def Patch_def Post_def
      Put_def Trace_def)

theorem method_helpers_are_Handle_witness:
  "Get gc_growcap ''/a'' [Some ex_hA] ([], New []) =
     Handle gc_growcap ''GET'' ''/a'' [Some ex_hA] ([], New [])
   \<and> Post gc_growcap ''/a'' [Some ex_hA] ([], New []) =
     Handle gc_growcap ''POST'' ''/a'' [Some ex_hA] ([], New [])"
  using method_helpers_are_Handle [of gc_growcap "''/a''" "[Some ex_hA]" "([], New [])"]
  by blast

text \<open>The route \<^verbatim>\<open>Get\<close> registers answers to GET and to no other method.\<close>

lemma Get_registers_example:
  "(case Get gc_growcap ''/a'' [Some ex_hA] ([], New []) of
      Inl e \<Rightarrow> None
    | Inr mb \<Rightarrow> Some (Find (Router (snd mb)) ''GET'' ''/a'', Find (Router (snd mb)) ''POST'' ''/a'')) =
   Some ((Some (Closure \<lparr>base = 0, slen = 1, scap = 1\<rparr> 1), [], Matched), (None, [], NotAllowed))"
  by code_simp

section \<open>Dispatch: which handler runs\<close>

lemma ServeHTTP_from_eq:
  "ServeHTTP_from m b (h, c, s) rw r tr =
     release b
       (case h of
          Some f \<Rightarrow> call_route m f (reset rw r c, tr)
        | None \<Rightarrow>
            (if s = NotFound then call (Next m) (notFoundHandler b) (reset rw r c, tr)
             else if s = NotAllowed then call (Next m) (methodNotAllowedHandler b) (reset rw r c, tr)
             else Returned (reset rw r c, tr)))"
  by (simp add: ServeHTTP_from_def release_def Let_def)

lemma chain_set_reset: "chain_set m (reset rw r c) = {}"
  by (simp add: chain_set_def reset_def)

lemma invoked_subset_empty: "set (invoked new) \<subseteq> {} \<Longrightarrow> invoked new = []"
  by simp

lemma invoke_events:
  "\<exists>new. snd (the_state (invoke (Next m) g st)) = snd st @ Invoked g # new
         \<and> set (invoked new) \<subseteq> chain_set m (fst st)"
proof -
  have "frame m (fst st, snd st @ [Invoked g]) (the_state (invoke (Next m) g st))"
    unfolding invoke_def by (rule run_frame) (rule Next_frame)
  then obtain new where "snd (the_state (invoke (Next m) g st)) = (snd st @ [Invoked g]) @ new"
    and "set (invoked new) \<subseteq> chain_set m (fst st)"
    unfolding frame_def by auto
  then show ?thesis by auto
qed


text \<open>A fallback handler called on the reset context: it is the one handler that runs.\<close>

lemma fallback_events:
  "\<exists>new. snd (the_state (call (Next m) (Some g) (reset rw r c, tr))) = tr @ new
         \<and> invoked new = [g]"
proof -
  obtain new where e: "snd (the_state (invoke (Next m) g (reset rw r c, tr))) = tr @ Invoked g # new"
    and n: "set (invoked new) \<subseteq> chain_set m (reset rw r c)"
    using invoke_events [of m g "(reset rw r c, tr)"] by auto
  from n have "invoked new = []" by (simp add: chain_set_reset)
  with e show ?thesis by (simp add: call_def)
qed


lemma release_events: "snd (the_state (release b res)) = snd (the_state res)"
  by (cases res) (simp_all add: release_def)


lemma chain_set_route:
  "chain_set m (c\<lparr>c_handlers := h, c_l := n\<rparr>) = {x. Some x \<in> set (route_chain m (Closure h n))}"
  by (simp add: chain_set_def)

lemma call_route_events:
  "\<exists>new. snd (the_state (call_route m f (c, tr))) = tr @ new
         \<and> set (invoked new) \<subseteq> {x. Some x \<in> set (route_chain m f)}"
proof (cases f)
  case (Closure h n)
  have "frame m (c\<lparr>c_handlers := h, c_l := n\<rparr>, tr)
          (the_state (Next m (c\<lparr>c_handlers := h, c_l := n\<rparr>, tr)))"
    by (rule Next_frame)
  then obtain new where
    "snd (the_state (Next m (c\<lparr>c_handlers := h, c_l := n\<rparr>, tr))) = tr @ new"
    and "set (invoked new) \<subseteq> chain_set m (c\<lparr>c_handlers := h, c_l := n\<rparr>)"
    unfolding frame_def by auto
  then show ?thesis using Closure by (auto simp: chain_set_route)
qed



lemma ex_route_chain: "route_chain ex_mem ex_route = [Some (ex_mw 1), Some ex_hA]"
  by (simp add: ex_mem_def ex_route_def slice_read_def array_at_def)

lemma New_defaults:
  "notFoundHandler (New []) = Some DefaultNotFound"
  "methodNotAllowedHandler (New []) = Some DefaultMethodNotAllowed"
  "internalServerErrorHandler (New []) = Some DefaultInternalServerError"
  by (simp_all add: New_fields Bolt_literal_def)

lemma ex_dispatch_events:
  "snd (the_state (ServeHTTP_from ex_mem (New []) (Some ex_route, ex_stale, Matched) 7 ex_req []))
     = [Invoked (ex_mw 1), Invoked ex_hA, Wrote 7 (Write ''A'')]"
  by code_simp



lemma ex_route_chain_no_default:
  "\<forall>f. Some ex_route = Some f \<longrightarrow> Some DefaultInternalServerError \<notin> set (route_chain ex_mem f)"
  by (simp add: ex_route_chain ex_mw_def ex_hA_def)



text \<open>What a dispatch invokes, whatever was found.\<close>

lemma ServeHTTP_from_invoked:
  "\<exists>new. snd (the_state (ServeHTTP_from m b (h, c, s) rw r tr)) = tr @ new
         \<and> set (invoked new) \<subseteq>
             (case h of
                Some f \<Rightarrow> {x. Some x \<in> set (route_chain m f)}
              | None \<Rightarrow>
                  (if s = NotFound then {x. notFoundHandler b = Some x}
                   else if s = NotAllowed then {x. methodNotAllowedHandler b = Some x}
                   else {}))"
proof (cases h)
  case (Some f)
  then show ?thesis
    using call_route_events [of m f "reset rw r c" tr]
    by (simp add: ServeHTTP_from_eq release_events)
next
  case None
  have fb: "\<exists>new. snd (the_state (call (Next m) g (reset rw r c, tr))) = tr @ new
         \<and> set (invoked new) \<subseteq> {x. g = Some x}" for g
  proof (cases g)
    case None
    then show ?thesis by (simp add: call_def)
  next
    case (Some g')
    then show ?thesis using fallback_events [of m g' rw r c tr] by auto
  qed
  show ?thesis
  proof (cases s)
    case Matched
    then show ?thesis using None by (simp add: ServeHTTP_from_eq release_events)
  next
    case NotFound
    then show ?thesis using None fb [of "notFoundHandler b"]
      by (simp add: ServeHTTP_from_eq release_events)
  next
    case NotAllowed
    then show ?thesis using None fb [of "methodNotAllowedHandler b"]
      by (simp add: ServeHTTP_from_eq release_events)
  qed
qed











lemma release_upd:
  "release (b\<lparr>internalServerErrorHandler := x\<rparr>) res =
     (case release b res of
        Returned bt \<Rightarrow> Returned ((fst bt)\<lparr>internalServerErrorHandler := x\<rparr>, snd bt)
      | Panicked bt \<Rightarrow> Panicked ((fst bt)\<lparr>internalServerErrorHandler := x\<rparr>, snd bt))"
  by (cases res) (simp_all add: release_def pool_Put_def)

lemma ServeHTTP_from_upd:
  "ServeHTTP_from m (b\<lparr>internalServerErrorHandler := x\<rparr>) found rw r tr =
     (case ServeHTTP_from m b found rw r tr of
        Returned bt \<Rightarrow> Returned ((fst bt)\<lparr>internalServerErrorHandler := x\<rparr>, snd bt)
      | Panicked bt \<Rightarrow> Panicked ((fst bt)\<lparr>internalServerErrorHandler := x\<rparr>, snd bt))"
proof -
  obtain h c s where found: "found = (h, c, s)" by (cases found) auto
  show ?thesis
    by (cases h; cases s; simp add: found ServeHTTP_from_eq release_upd)
qed

lemma Router_Find_upd:
  "Router_Find (b\<lparr>internalServerErrorHandler := x\<rparr>) method path =
     (fst (Router_Find b method path), (snd (Router_Find b method path))\<lparr>internalServerErrorHandler := x\<rparr>)"
  by (simp add: Router_Find_def pool_Get_def pool_New_def split: list.split prod.split)

lemma ServeHTTP_upd:
  "ServeHTTP m (b\<lparr>internalServerErrorHandler := x\<rparr>) rw r tr =
     (case ServeHTTP m b rw r tr of
        Returned bt \<Rightarrow> Returned ((fst bt)\<lparr>internalServerErrorHandler := x\<rparr>, snd bt)
      | Panicked bt \<Rightarrow> Panicked ((fst bt)\<lparr>internalServerErrorHandler := x\<rparr>, snd bt))"
  by (simp add: ServeHTTP_def Router_Find_upd ServeHTTP_from_upd split: prod.split)

text \<open>
  Claim C8. The core never invokes the internal-error handler: for every request and
  every resolution result, \<^verbatim>\<open>ServeHTTP\<close> does the same whatever handler is stored in
  \<^verbatim>\<open>internalServerErrorHandler\<close> (the field is only carried along), and a handler that is
  configured there, and is neither one of the other two fallbacks nor a member of the
  route's chain, is not among the handlers invoked.
\<close>

theorem internal_error_handler_never_invoked:
  "ServeHTTP m (b\<lparr>internalServerErrorHandler := x\<rparr>) rw r tr =
     (case ServeHTTP m b rw r tr of
        Returned bt \<Rightarrow> Returned ((fst bt)\<lparr>internalServerErrorHandler := x\<rparr>, snd bt)
      | Panicked bt \<Rightarrow> Panicked ((fst bt)\<lparr>internalServerErrorHandler := x\<rparr>, snd bt))
   \<and> ServeHTTP_from m (b\<lparr>internalServerErrorHandler := x\<rparr>) (h, c, s) rw r tr =
     (case ServeHTTP_from m b (h, c, s) rw r tr of
        Returned bt \<Rightarrow> Returned ((fst bt)\<lparr>internalServerErrorHandler := x\<rparr>, snd bt)
      | Panicked bt \<Rightarrow> Panicked ((fst bt)\<lparr>internalServerErrorHandler := x\<rparr>, snd bt))
   \<and> (internalServerErrorHandler b = Some g \<and> notFoundHandler b \<noteq> Some g
        \<and> methodNotAllowedHandler b \<noteq> Some g
        \<and> (\<forall>f. h = Some f \<longrightarrow> Some g \<notin> set (route_chain m f)) \<longrightarrow>
        (\<exists>new. snd (the_state (ServeHTTP_from m b (h, c, s) rw r tr)) = tr @ new
            \<and> g \<notin> set (invoked new)))"
proof (intro conjI impI)
  assume a: "internalServerErrorHandler b = Some g \<and> notFoundHandler b \<noteq> Some g
        \<and> methodNotAllowedHandler b \<noteq> Some g
        \<and> (\<forall>f. h = Some f \<longrightarrow> Some g \<notin> set (route_chain m f))"
  obtain new where e: "snd (the_state (ServeHTTP_from m b (h, c, s) rw r tr)) = tr @ new"
    and sub: "set (invoked new) \<subseteq>
             (case h of
                Some f \<Rightarrow> {x. Some x \<in> set (route_chain m f)}
              | None \<Rightarrow>
                  (if s = NotFound then {x. notFoundHandler b = Some x}
                   else if s = NotAllowed then {x. methodNotAllowedHandler b = Some x}
                   else {}))"
    using ServeHTTP_from_invoked [of m b h c s rw r tr] by auto
  have "g \<notin> (case h of
                Some f \<Rightarrow> {x. Some x \<in> set (route_chain m f)}
              | None \<Rightarrow>
                  (if s = NotFound then {x. notFoundHandler b = Some x}
                   else if s = NotAllowed then {x. methodNotAllowedHandler b = Some x}
                   else {}))"
    using a by (cases h) auto
  with sub have "g \<notin> set (invoked new)" by blast
  with e show "\<exists>new. snd (the_state (ServeHTTP_from m b (h, c, s) rw r tr)) = tr @ new
            \<and> g \<notin> set (invoked new)" by blast
qed (rule ServeHTTP_upd, rule ServeHTTP_from_upd)

theorem internal_error_handler_never_invoked_witness:
  "\<exists>new. snd (the_state (ServeHTTP_from ex_mem (New []) (Some ex_route, ex_stale, Matched) 7 ex_req [])) = [] @ new
        \<and> DefaultInternalServerError \<notin> set (invoked new)"
proof -
  have hyp: "internalServerErrorHandler (New []) = Some DefaultInternalServerError
      \<and> notFoundHandler (New []) \<noteq> Some DefaultInternalServerError
      \<and> methodNotAllowedHandler (New []) \<noteq> Some DefaultInternalServerError
      \<and> (\<forall>f. Some ex_route = Some f \<longrightarrow> Some DefaultInternalServerError \<notin> set (route_chain ex_mem f))"
    using ex_route_chain_no_default by (simp add: New_defaults)
  from internal_error_handler_never_invoked [where m = ex_mem and b = "New []" and h = "Some ex_route"
        and c = ex_stale and s = Matched and rw = 7 and r = ex_req and tr = "[]"
        and g = DefaultInternalServerError and x = None]
  have "internalServerErrorHandler (New []) = Some DefaultInternalServerError
      \<and> notFoundHandler (New []) \<noteq> Some DefaultInternalServerError
      \<and> methodNotAllowedHandler (New []) \<noteq> Some DefaultInternalServerError
      \<and> (\<forall>f. Some ex_route = Some f \<longrightarrow> Some DefaultInternalServerError \<notin> set (route_chain ex_mem f))
      \<longrightarrow> (\<exists>new. snd (the_state (ServeHTTP_from ex_mem (New []) (Some ex_route, ex_stale, Matched) 7 ex_req [])) = [] @ new
        \<and> DefaultInternalServerError \<notin> set (invoked new))"
    by (elim conjE)
  with hyp show ?thesis by (rule rev_mp)
qed

section \<open>The default fallback handlers\<close>

lemma run_append:
  "run nx (cs @ ds) st =
     (case run nx cs st of Returned st' \<Rightarrow> run nx ds st' | Panicked st' \<Rightarrow> Panicked st')"
proof (induction cs arbitrary: st)
  case Nil
  show ?case by simp
next
  case (Cons x cs)
  show ?case
  proof (cases x)
    case CallNext
    then show ?thesis using Cons.IH by (cases "nx st") simp_all
  next
    case CallHalt
    then show ?thesis using Cons.IH by simp
  next
    case (StoreSet k v)
    then show ?thesis using Cons.IH by simp
  next
    case (Respond w)
    then show ?thesis using Cons.IH by (cases "Response (fst st)") simp_all
  next
    case Panic
    then show ?thesis by simp
  qed
qed

lemma run_http_Error:
  "Response c = Some rw \<Longrightarrow>
   run nx (http_Error msg code) (c, tr) =
     Returned (c, tr @ [Wrote rw (HeaderSet ''Content-Type'' ''text/plain; charset=utf-8''),
                        Wrote rw (HeaderSet ''X-Content-Type-Options'' ''nosniff''),
                        Wrote rw (WriteHeader code),
                        Wrote rw (Write (msg @ [CHR 0x0A]))])"
  by (simp add: http_Error_def)

lemma run_http_Error_Halt:
  "Response c = Some rw \<Longrightarrow>
   run nx (http_Error msg code @ [CallHalt]) (c, tr) =
     Returned (Halt c, tr @ [Wrote rw (HeaderSet ''Content-Type'' ''text/plain; charset=utf-8''),
                        Wrote rw (HeaderSet ''X-Content-Type-Options'' ''nosniff''),
                        Wrote rw (WriteHeader code),
                        Wrote rw (Write (msg @ [CHR 0x0A]))])"
  by (simp add: run_append run_http_Error)


text \<open>Once the chain is halted, whatever code runs on invokes no handler.\<close>

lemma run_halted:
  "halted (fst st) \<Longrightarrow>
   invoked (snd (the_state (run (Next m) cs st))) = invoked (snd st)
   \<and> halted (fst (the_state (run (Next m) cs st)))"
proof (induction cs arbitrary: st)
  case Nil
  then show ?case by simp
next
  case (Cons x cs)
  show ?case
  proof (cases x)
    case CallNext
    have "Next m st = Returned ((fst st)\<lparr>c_i := c_i (fst st) + 1\<rparr>, snd st)"
      using Cons.prems by (rule Next_halted)
    then show ?thesis
      using CallNext Cons.IH [of "((fst st)\<lparr>c_i := c_i (fst st) + 1\<rparr>, snd st)"] Cons.prems
      by simp
  next
    case CallHalt
    then show ?thesis
      using Cons.IH [of "(Halt (fst st), snd st)"] by (simp add: Halt_def)
  next
    case (StoreSet k v)
    then show ?thesis
      using Cons.IH [of "((fst st)\<lparr>store := (store (fst st))(k \<mapsto> v)\<rparr>, snd st)"] Cons.prems
      by simp
  next
    case (Respond w)
    show ?thesis
    proof (cases "Response (fst st)")
      case None
      then show ?thesis using Respond Cons.prems by simp
    next
      case (Some rw)
      then show ?thesis
        using Respond Cons.IH [of "(fst st, snd st @ [Wrote rw w])"] Cons.prems
        by (simp add: invoked_append)
    qed
  next
    case Panic
    then show ?thesis using Cons.prems by simp
  qed
qed

text \<open>
  Claim C6. Each default fallback handler, run on a context whose response handle is
  bound, writes through that handle the plain-text headers, its status code (404, 405,
  500) and the standard text of that status, then halts the chain and returns. From
  then on \<^verbatim>\<open>Next\<close> invokes nothing, and whatever code of the callers still runs
  invokes no handler.
\<close>

theorem default_handlers_write_and_halt:
  assumes "Response c = Some rw"
  shows
  "invoke nx DefaultNotFound (c, tr) =
     Returned (Halt c, tr @ [Invoked DefaultNotFound,
        Wrote rw (HeaderSet ''Content-Type'' ''text/plain; charset=utf-8''),
        Wrote rw (HeaderSet ''X-Content-Type-Options'' ''nosniff''),
        Wrote rw (WriteHeader 404), Wrote rw (Write (''Not Found'' @ [CHR 0x0A]))])
   \<and> invoke nx DefaultMethodNotAllowed (c, tr) =
     Returned (Halt c, tr @ [Invoked DefaultMethodNotAllowed,
        Wrote rw (HeaderSet ''Content-Type'' ''text/plain; charset=utf-8''),
        Wrote rw (HeaderSet ''X-Content-Type-Options'' ''nosniff''),
        Wrote rw (WriteHeader 405), Wrote rw (Write (''Method Not Allowed'' @ [CHR 0x0A]))])
   \<and> invoke nx DefaultInternalServerError (c, tr) =
     Returned (Halt c, tr @ [Invoked DefaultInternalServerError,
        Wrote rw (HeaderSet ''Content-Type'' ''text/plain; charset=utf-8''),
        Wrote rw (HeaderSet ''X-Content-Type-Options'' ''nosniff''),
        Wrote rw (WriteHeader 500), Wrote rw (Write (''Internal Server Error'' @ [CHR 0x0A]))])
   \<and> halted (Halt c)
   \<and> Next m (Halt c, tr') = Returned ((Halt c)\<lparr>c_i := c_i c + 1\<rparr>, tr')
   \<and> invoked (snd (the_state (run (Next m) cs (Halt c, tr')))) = invoked tr'"
proof (intro conjI)
  show "invoke nx DefaultNotFound (c, tr) =
     Returned (Halt c, tr @ [Invoked DefaultNotFound,
        Wrote rw (HeaderSet ''Content-Type'' ''text/plain; charset=utf-8''),
        Wrote rw (HeaderSet ''X-Content-Type-Options'' ''nosniff''),
        Wrote rw (WriteHeader 404), Wrote rw (Write (''Not Found'' @ [CHR 0x0A]))])"
    using assms
    by (simp add: invoke_def run_http_Error_Halt StatusText_def StatusNotFound_def)
  show "invoke nx DefaultMethodNotAllowed (c, tr) =
     Returned (Halt c, tr @ [Invoked DefaultMethodNotAllowed,
        Wrote rw (HeaderSet ''Content-Type'' ''text/plain; charset=utf-8''),
        Wrote rw (HeaderSet ''X-Content-Type-Options'' ''nosniff''),
        Wrote rw (WriteHeader 405), Wrote rw (Write (''Method Not Allowed'' @ [CHR 0x0A]))])"
    using assms
    by (simp add: invoke_def run_http_Error_Halt StatusText_def StatusMethodNotAllowed_def)
  show "invoke nx DefaultInternalServerError (c, tr) =
     Returned (Halt c, tr @ [Invoked DefaultInternalServerError,
        Wrote rw (HeaderSet ''Content-Type'' ''text/plain; charset=utf-8''),
        Wrote rw (HeaderSet ''X-Content-Type-Options'' ''nosniff''),
        Wrote rw (WriteHeader 500), Wrote rw (Write (''Internal Server Error'' @ [CHR 0x0A]))])"
    using assms
    by (simp add: invoke_def run_http_Error_Halt StatusText_def StatusInternalServerError_def)
  show "halted (Halt c)" by (simp add: Halt_def)
  show "Next m (Halt c, tr') = Returned ((Halt c)\<lparr>c_i := c_i c + 1\<rparr>, tr')"
    using Next_halted [of "(Halt c, tr')" m] by (simp add: Halt_def)
  show "invoked (snd (the_state (run (Next m) cs (Halt c, tr')))) = invoked tr'"
    using run_halted [of "(Halt c, tr')" m cs] by (simp add: Halt_def)
qed

text \<open>
  With the not-found default in the middle of a chain the user handler behind it does
  not run, although the middleware in front calls \<^verbatim>\<open>Next\<close> a second time. Without the
  halt, that second call resumes the chain.
\<close>

lemma ex_halt_chain:
  "invoked (snd (the_state (ServeHTTP_from ex_mem_halt (New []) (Some ex_route3, ex_stale, Matched) 7 ex_req [])))
     = [ex_twice, DefaultNotFound]"
  by code_simp

lemma ex_plain_chain:
  "invoked (snd (the_state (ServeHTTP_from ex_mem_plain (New []) (Some ex_route3, ex_stale, Matched) 7 ex_req [])))
     = [ex_twice, UserHandler 21 [], ex_hA]"
  by code_simp

lemma ex_not_found_dispatch:
  "snd (the_state (ServeHTTP_from ex_mem (New []) (None, ex_stale, NotFound) 7 ex_req []))
     = [Invoked DefaultNotFound,
        Wrote 7 (HeaderSet ''Content-Type'' ''text/plain; charset=utf-8''),
        Wrote 7 (HeaderSet ''X-Content-Type-Options'' ''nosniff''),
        Wrote 7 (WriteHeader 404), Wrote 7 (Write (''Not Found'' @ [CHR 0x0A]))]"
  by code_simp

theorem default_handlers_write_and_halt_witness:
  "invoke (Next ex_mem) DefaultNotFound (reset 7 ex_req ex_stale, []) =
     Returned (Halt (reset 7 ex_req ex_stale), [] @ [Invoked DefaultNotFound,
        Wrote 7 (HeaderSet ''Content-Type'' ''text/plain; charset=utf-8''),
        Wrote 7 (HeaderSet ''X-Content-Type-Options'' ''nosniff''),
        Wrote 7 (WriteHeader 404), Wrote 7 (Write (''Not Found'' @ [CHR 0x0A]))])"
proof -
  have "Response (reset 7 ex_req ex_stale) = Some 7" by (simp add: reset_def)
  from default_handlers_write_and_halt [OF this, of "Next ex_mem" "[]" ex_mem "[]" "[]"]
  show ?thesis by (elim conjE)
qed

section \<open>Resolution\<close>



lemma ex_root_finds:
  "Find ex_root ''GET'' ''/users/42'' =
     (Some (Closure \<lparr>base = 0, slen = 1, scap = 1\<rparr> 1), [(''id'', ''42'')], Matched)"
  "Find ex_root ''GET'' ''/files/a/b/c'' =
     (Some (Closure \<lparr>base = 1, slen = 1, scap = 1\<rparr> 1), [(''*'', ''a/b/c'')], Matched)"
  "Find ex_root ''POST'' ''/users/42'' = (None, [(''id'', ''42'')], NotAllowed)"
  "Find ex_root ''GET'' ''/y'' = (None, [], NotFound)"
  by code_simp+


section \<open>Options: what New accepts\<close>







section \<open>Registration: slices that share an array\<close>

lemma append_slice_inplace:
  "slen s + length xs \<le> scap s \<Longrightarrow>
   append_slice grow m s xs =
     (m[base s := store_at (array_at m (base s)) (slen s) xs], s\<lparr>slen := slen s + length xs\<rparr>)"
  by (simp add: append_slice_def Let_def)

lemma append_slice_alloc:
  "\<not> slen s + length xs \<le> scap s \<Longrightarrow>
   append_slice grow m s xs =
     (m @ [slice_read m s @ xs @
             replicate (max (slen s + length xs) (grow (scap s) (slen s + length xs))
                          - (slen s + length xs)) None],
      \<lparr>base = length m, slen = slen s + length xs,
       scap = max (slen s + length xs) (grow (scap s) (slen s + length xs))\<rparr>)"
  by (simp add: append_slice_def Let_def)

lemma slice_read_length: "slice_ok m s \<Longrightarrow> length (slice_read m s) = slen s"
  by (auto simp: slice_ok_def slice_read_def array_at_def)

lemma append_slice_read:
  assumes "slice_ok m s"
  shows "slice_read (fst (append_slice grow m s xs)) (snd (append_slice grow m s xs))
           = slice_read m s @ xs"
proof (cases "slen s + length xs \<le> scap s")
  case True
  show ?thesis
  proof (cases "scap s = 0")
    case True
    with \<open>slen s + length xs \<le> scap s\<close> show ?thesis
      by (simp add: append_slice_inplace slice_read_def)
  next
    case False
    with assms have b: "base s < length m" and l: "length (m ! base s) = scap s"
      and le: "slen s \<le> scap s"
      by (simp_all add: slice_ok_def)
    have "take (slen s + length xs) (store_at (m ! base s) (slen s) xs) = take (slen s) (m ! base s) @ xs"
      using l le by (simp add: store_at_def)
    then show ?thesis using True b
      by (simp add: append_slice_inplace slice_read_def array_at_def)
  qed
next
  case False
  have "length (slice_read m s) = slen s" using assms by (rule slice_read_length)
  then show ?thesis using False
    by (simp add: append_slice_alloc slice_read_def array_at_def)
qed

lemma append_slice_ok:
  assumes "slice_ok m s"
  shows "slice_ok (fst (append_slice grow m s xs)) (snd (append_slice grow m s xs))"
proof (cases "slen s + length xs \<le> scap s")
  case True
  then show ?thesis using assms
    by (auto simp: append_slice_inplace slice_ok_def store_at_def array_at_def)
next
  case False
  have "length (slice_read m s) = slen s" using assms by (rule slice_read_length)
  then show ?thesis using False
    by (simp add: append_slice_alloc slice_ok_def)
qed

text \<open>An append leaves what its first argument reads as it was.\<close>

lemma append_slice_keeps:
  assumes "slice_ok m s"
  shows "slice_read (fst (append_slice grow m s xs)) s = slice_read m s"
    and "slice_ok (fst (append_slice grow m s xs)) s"
proof -
  show "slice_read (fst (append_slice grow m s xs)) s = slice_read m s"
  proof (cases "slen s + length xs \<le> scap s")
    case True
    then show ?thesis using assms
      by (auto simp: append_slice_inplace slice_read_def array_at_def slice_ok_def store_at_def)
  next
    case False
    then show ?thesis using assms
      by (auto simp: append_slice_alloc slice_read_def array_at_def slice_ok_def nth_append)
  qed
  show "slice_ok (fst (append_slice grow m s xs)) s"
  proof (cases "slen s + length xs \<le> scap s")
    case True
    then show ?thesis using assms
      by (auto simp: append_slice_inplace slice_ok_def store_at_def array_at_def)
  next
    case False
    then show ?thesis using assms
      by (auto simp: append_slice_alloc slice_ok_def nth_append)
  qed
qed

lemma Use_read:
  assumes "slice_ok (fst mb) (handlers (snd mb))"
  shows "slice_read (fst (Use grow h mb)) (handlers (snd (Use grow h mb)))
           = slice_read (fst mb) (handlers (snd mb)) @ h"
    and "slice_ok (fst (Use grow h mb)) (handlers (snd (Use grow h mb)))"
  using append_slice_read [OF assms, of grow h] append_slice_ok [OF assms, of grow h]
  by (cases "append_slice grow (fst mb) (handlers (snd mb)) h"; simp add: Use_def)+

lemma Handle_eq:
  "Handle grow method path h mb =
     (case Router_Add (Router (snd mb)) method path (Handle_closure grow h mb) of
        Inl e \<Rightarrow> Inl e
      | Inr root \<Rightarrow>
          Inr (fst (append_slice grow (fst mb) (handlers (snd mb)) h), (snd mb)\<lparr>Router := root\<rparr>))"
  by (cases "append_slice grow (fst mb) (handlers (snd mb)) h")
    (simp add: Handle_def Handle_closure_def Let_def split: sum.split)

lemma Handle_read:
  assumes "slice_ok (fst mb) (handlers (snd mb))" and "Handle grow method path h mb = Inr mb'"
  shows "slice_read (fst mb') (handlers (snd mb')) = slice_read (fst mb) (handlers (snd mb))"
    and "slice_ok (fst mb') (handlers (snd mb'))"
proof -
  from assms(2) obtain root where
    mb': "mb' = (fst (append_slice grow (fst mb) (handlers (snd mb)) h), (snd mb)\<lparr>Router := root\<rparr>)"
    by (auto simp: Handle_eq split: sum.splits)
  show "slice_read (fst mb') (handlers (snd mb')) = slice_read (fst mb) (handlers (snd mb))"
    using append_slice_keeps(1) [OF assms(1), of grow h] by (simp add: mb')
  show "slice_ok (fst mb') (handlers (snd mb'))"
    using append_slice_keeps(2) [OF assms(1), of grow h] by (simp add: mb')
qed

text \<open>The chain of the closure that Handle builds, in the memory Handle leaves.\<close>

lemma Handle_closure_chain:
  assumes "slice_ok (fst mb) (handlers (snd mb))"
  shows "route_chain (fst (append_slice grow (fst mb) (handlers (snd mb)) h)) (Handle_closure grow h mb)
           = slice_read (fst mb) (handlers (snd mb)) @ h"
proof -
  obtain m' h' where a: "append_slice grow (fst mb) (handlers (snd mb)) h = (m', h')"
    by (cases "append_slice grow (fst mb) (handlers (snd mb)) h") auto
  have r: "slice_read m' h' = slice_read (fst mb) (handlers (snd mb)) @ h"
    using append_slice_read [OF assms, of grow h] a by simp
  have "slice_ok m' h'" using append_slice_ok [OF assms, of grow h] a by simp
  then have "length (slice_read m' h') = slen h'" by (rule slice_read_length)
  then show ?thesis using a r by (simp add: Handle_closure_def)
qed

lemma register_read:
  assumes "slice_ok (fst mb) (handlers (snd mb))" and "register grow calls mb = Inr mb'"
  shows "slice_read (fst mb') (handlers (snd mb')) = slice_read (fst mb) (handlers (snd mb)) @ uses calls
       \<and> slice_ok (fst mb') (handlers (snd mb'))"
  using assms
proof (induction calls arbitrary: mb)
  case Nil
  then show ?case by simp
next
  case (Cons x calls)
  show ?case
  proof (cases x)
    case (CallUse h)
    with Cons.prems have r: "register grow calls (Use grow h mb) = Inr mb'" by simp
    show ?thesis
      using Cons.IH [OF Use_read(2) [OF Cons.prems(1)] r] Use_read(1) [OF Cons.prems(1), of grow h]
        CallUse
      by simp
  next
    case (CallHandle mth pth h)
    with Cons.prems obtain mb1 where h1: "Handle grow mth pth h mb = Inr mb1"
      and r: "register grow calls mb1 = Inr mb'"
      by (auto split: sum.splits)
    show ?thesis
      using Cons.IH [OF Handle_read(2) [OF Cons.prems(1) h1] r] Handle_read(1) [OF Cons.prems(1) h1]
        CallHandle
      by simp
  qed
qed

lemma New_slice_ok: "slice_ok m (handlers (New opts))"
  by (simp add: New_fields slice_ok_def nil_slice_def)

text \<open>
  After any program of registration calls, the closure a further Handle builds runs the
  middleware passed to Use so far, in order, and then the handlers of the route.
\<close>

lemma Handle_chain_at_registration:
  assumes "register grow calls ([], New opts) = Inr mb"
  shows "route_chain (fst (append_slice grow (fst mb) (handlers (snd mb)) h)) (Handle_closure grow h mb)
           = uses calls @ h"
proof -
  have ok0: "slice_ok (fst ([], New opts)) (handlers (snd ([], New opts)))"
    by (simp add: New_slice_ok)
  have "slice_read (fst mb) (handlers (snd mb)) = slice_read [] (handlers (New opts)) @ uses calls"
    and ok: "slice_ok (fst mb) (handlers (snd mb))"
    using register_read [OF ok0 assms] by simp_all
  moreover have "slice_read [] (handlers (New opts)) = []"
    by (simp add: New_fields slice_read_def nil_slice_def)
  ultimately show ?thesis using Handle_closure_chain [OF ok, of grow h] by simp
qed

text \<open>
  Spare capacity: two appends to the same slice share the array, and the second
  overwrites what the first wrote.
\<close>

lemma append_slice_twice_aliases:
  assumes ok: "slice_ok m s" and spare: "slen s < scap s"
  shows "snd (append_slice grow m s [x]) = snd (append_slice grow (fst (append_slice grow m s [x])) s [y])"
    and "slice_read (fst (append_slice grow (fst (append_slice grow m s [x])) s [y]))
           (snd (append_slice grow m s [x])) = slice_read m s @ [y]"
proof -
  from ok spare have b: "base s < length m" and l: "length (m ! base s) = scap s"
    by (auto simp: slice_ok_def)
  have a1: "append_slice grow m s [x] =
      (m[base s := store_at (m ! base s) (slen s) [x]], s\<lparr>slen := slen s + 1\<rparr>)"
    using spare b by (simp add: append_slice_inplace array_at_def)
  have ok1: "slice_ok (m[base s := store_at (m ! base s) (slen s) [x]]) s"
    using append_slice_keeps(2) [OF ok, of grow "[x]"] a1 by simp
  have a2: "append_slice grow (m[base s := store_at (m ! base s) (slen s) [x]]) s [y] =
      ((m[base s := store_at (m ! base s) (slen s) [x]])
          [base s := store_at (store_at (m ! base s) (slen s) [x]) (slen s) [y]],
       s\<lparr>slen := slen s + 1\<rparr>)"
    using spare b by (simp add: append_slice_inplace array_at_def)
  show "snd (append_slice grow m s [x]) = snd (append_slice grow (fst (append_slice grow m s [x])) s [y])"
    by (simp add: a1 a2)
  have "slice_read (fst (append_slice grow (m[base s := store_at (m ! base s) (slen s) [x]]) s [y]))
          (snd (append_slice grow (m[base s := store_at (m ! base s) (slen s) [x]]) s [y]))
        = slice_read (m[base s := store_at (m ! base s) (slen s) [x]]) s @ [y]"
    using ok1 by (rule append_slice_read)
  moreover have "slice_read (m[base s := store_at (m ! base s) (slen s) [x]]) s = slice_read m s"
    using append_slice_keeps(1) [OF ok, of grow "[x]"] a1 by simp
  ultimately show "slice_read (fst (append_slice grow (fst (append_slice grow m s [x])) s [y]))
           (snd (append_slice grow m s [x])) = slice_read m s @ [y]"
    by (simp add: a1 a2)
qed

text \<open>
  The same at the level of \<^verbatim>\<open>Handle\<close>, for any growth rule: when \<^verbatim>\<open>b.handlers\<close> has spare
  capacity, the chain of a route with one handler is right when it is registered, and
  the next \<^verbatim>\<open>Handle\<close> with one handler replaces the route's handler by its own.
\<close>

lemma Handle_twice_aliases:
  assumes ok: "slice_ok (fst mb) (handlers (snd mb))"
    and spare: "slen (handlers (snd mb)) < scap (handlers (snd mb))"
    and h1: "Handle grow method1 path1 [x] mb = Inr mb1"
    and h2: "Handle grow method2 path2 [y] mb1 = Inr mb2"
  shows "route_chain (fst mb1) (Handle_closure grow [x] mb) = slice_read (fst mb) (handlers (snd mb)) @ [x]"
    and "route_chain (fst mb2) (Handle_closure grow [x] mb) = slice_read (fst mb) (handlers (snd mb)) @ [y]"
proof -
  let ?m = "fst mb" and ?s = "handlers (snd mb)"
  from h1 obtain root1 where
    mb1: "mb1 = (fst (append_slice grow ?m ?s [x]), (snd mb)\<lparr>Router := root1\<rparr>)"
    by (auto simp: Handle_eq split: sum.splits)
  from h2 obtain root2 where
    mb2: "mb2 = (fst (append_slice grow (fst mb1) (handlers (snd mb1)) [y]), (snd mb1)\<lparr>Router := root2\<rparr>)"
    by (auto simp: Handle_eq split: sum.splits)
  show "route_chain (fst mb1) (Handle_closure grow [x] mb) = slice_read ?m ?s @ [x]"
    using Handle_closure_chain [OF ok, of grow "[x]"] by (simp add: mb1)
  have len: "length (slice_read ?m ?s) = slen ?s" using ok by (rule slice_read_length)
  have sl: "slen (snd (append_slice grow ?m ?s [x])) = slen ?s + 1"
    using spare by (simp add: append_slice_inplace)
  have "slice_read (fst mb2) (snd (append_slice grow ?m ?s [x])) = slice_read ?m ?s @ [y]"
    using append_slice_twice_aliases(2) [OF ok spare, of grow x y] by (simp add: mb2 mb1)
  then show "route_chain (fst mb2) (Handle_closure grow [x] mb) = slice_read ?m ?s @ [y]"
    using len sl
    by (cases "append_slice grow ?m ?s [x]") (simp add: Handle_closure_def)
qed

text \<open>
  Claim C1: the chain bound to a route is the middleware registered so far followed by
  the route's handlers, fixed at registration and not altered by later \<^verbatim>\<open>Use\<close> or
  \<^verbatim>\<open>Handle\<close> calls. The code breaks the second half. After three \<^verbatim>\<open>Use\<close> calls with one
  middleware each, \<^verbatim>\<open>b.handlers\<close> has length 3 and capacity 4. \<^verbatim>\<open>Handle\<close> for
  \<^verbatim>\<open>GET /a\<close> appends the route's handler in place, so the chain is the three
  middleware and that handler. A second \<^verbatim>\<open>Handle\<close>, for \<^verbatim>\<open>GET /b\<close>, appends to the same
  \<^verbatim>\<open>b.handlers\<close> and writes its handler into the same cell: the chain of \<^verbatim>\<open>GET /a\<close> now
  ends in the handler of \<^verbatim>\<open>/b\<close>, and a request for \<^verbatim>\<open>GET /a\<close> runs the handler of
  \<^verbatim>\<open>/b\<close>. A later \<^verbatim>\<open>Use\<close> does the same with a middleware.
\<close>

theorem Handle_chain_overwritten_by_later_Handle:
  "registered_chain gc_growcap (take 4 ex_prog) ''GET'' ''/a''
     = Some [Some (ex_mw 1), Some (ex_mw 2), Some (ex_mw 3), Some ex_hA]
   \<and> registered_chain gc_growcap ex_prog ''GET'' ''/a''
     = Some [Some (ex_mw 1), Some (ex_mw 2), Some (ex_mw 3), Some ex_hB]
   \<and> registered_chain gc_growcap (take 4 ex_prog @ [CallUse [Some (ex_mw 4)]]) ''GET'' ''/a''
     = Some [Some (ex_mw 1), Some (ex_mw 2), Some (ex_mw 3), Some (ex_mw 4)]
   \<and> (case register gc_growcap ex_prog ([], New []) of
         Inl e \<Rightarrow> []
       | Inr mb \<Rightarrow> snd (the_state (ServeHTTP (fst mb) (snd mb) 7 ex_req [])))
     = [Invoked (ex_mw 1), Invoked (ex_mw 2), Invoked (ex_mw 3), Invoked ex_hB, Wrote 7 (Write ''B'')]"
  by (intro conjI; code_simp)

end
